theory Spec2Isabelle
  imports Complex_Main "HOL-Library.Multiset"
begin

section \<open>Floating-point values\<close>

text \<open>
  The classifier of \<^verbatim>\<open>ai_image_classifier.py\<close> computes with numpy's float32 and
  float64. An element of an array is a real number or one of the three special values
  of the format: minus infinity, plus infinity and nan. The special values combine as
  IEEE 754 says, and the result of an operation becomes an infinity where rounding to
  nearest does: when its magnitude reaches the largest finite value of the format plus
  half a unit in the last place, which is \<open>limit32\<close> for float32 and \<open>limit64\<close>
  for float64. Below that limit the result is the real number: the rounding itself,
  the underflow of tiny values and the sign of zero are not modelled.
\<close>

datatype flt = NInf | Fin real | PInf | NaN

datatype dtype = F32 | F64

definition max32 :: real where
  "max32 = (2 - 1 / 2 ^ 23) * 2 ^ 127"

definition max64 :: real where
  "max64 = (2 - 1 / 2 ^ 52) * 2 ^ 1023"

fun max_finite :: "dtype \<Rightarrow> real" where
  "max_finite F32 = max32"
| "max_finite F64 = max64"

definition limit32 :: real where
  "limit32 = (2 - 1 / 2 ^ 24) * 2 ^ 127"

definition limit64 :: real where
  "limit64 = (2 - 1 / 2 ^ 53) * 2 ^ 1023"

fun limit :: "dtype \<Rightarrow> real" where
  "limit F32 = limit32"
| "limit F64 = limit64"

definition ovf :: "dtype \<Rightarrow> real \<Rightarrow> flt" where
  "ovf d r = (if limit d \<le> r then PInf
              else if r \<le> - limit d then NInf
              else Fin r)"

text \<open>
  The order numpy's \<^verbatim>\<open>max\<close>, \<^verbatim>\<open>maximum\<close>, \<^verbatim>\<open>argmax\<close> and \<^verbatim>\<open>argsort\<close> work with: the
  reals between the infinities, and nan above everything (a maximum is nan as soon as
  a nan is present, and a sort puts the nans last).
\<close>

fun rank :: "flt \<Rightarrow> nat" where
  "rank NInf = 0"
| "rank (Fin r) = 1"
| "rank PInf = 2"
| "rank NaN = 3"

instantiation flt :: linorder
begin

definition less_eq_flt :: "flt \<Rightarrow> flt \<Rightarrow> bool" where
  "less_eq_flt a b =
     (case (a, b) of
        (Fin x, Fin y) \<Rightarrow> x \<le> y
      | _ \<Rightarrow> rank a \<le> rank b)"

definition less_flt :: "flt \<Rightarrow> flt \<Rightarrow> bool" where
  "less_flt a b = (a \<le> b \<and> \<not> b \<le> a)"

instance
  by standard (auto simp add: less_eq_flt_def less_flt_def split: flt.splits)

end

fun fneg :: "flt \<Rightarrow> flt" where
  "fneg NInf = PInf"
| "fneg (Fin r) = Fin (- r)"
| "fneg PInf = NInf"
| "fneg NaN = NaN"

fun fadd :: "dtype \<Rightarrow> flt \<Rightarrow> flt \<Rightarrow> flt" where
  "fadd d (Fin x) (Fin y) = ovf d (x + y)"
| "fadd d NaN b = NaN"
| "fadd d a NaN = NaN"
| "fadd d PInf NInf = NaN"
| "fadd d NInf PInf = NaN"
| "fadd d PInf b = PInf"
| "fadd d a PInf = PInf"
| "fadd d NInf b = NInf"
| "fadd d a NInf = NInf"

definition fsub :: "dtype \<Rightarrow> flt \<Rightarrow> flt \<Rightarrow> flt" where
  "fsub d a b = fadd d a (fneg b)"

fun negative :: "flt \<Rightarrow> bool" where
  "negative NInf = True"
| "negative (Fin r) = (r < 0)"
| "negative PInf = False"
| "negative NaN = False"

definition signed_inf :: "bool \<Rightarrow> flt" where
  "signed_inf neg = (if neg then NInf else PInf)"

fun fmul :: "dtype \<Rightarrow> flt \<Rightarrow> flt \<Rightarrow> flt" where
  "fmul d (Fin x) (Fin y) = ovf d (x * y)"
| "fmul d NaN b = NaN"
| "fmul d a NaN = NaN"
| "fmul d a b =
     (if a = Fin 0 \<or> b = Fin 0 then NaN else signed_inf (negative a \<noteq> negative b))"

fun fdiv :: "dtype \<Rightarrow> flt \<Rightarrow> flt \<Rightarrow> flt" where
  "fdiv d (Fin x) (Fin y) =
     (if y = 0 then (if x = 0 then NaN else signed_inf (x < 0)) else ovf d (x / y))"
| "fdiv d NaN b = NaN"
| "fdiv d a NaN = NaN"
| "fdiv d (Fin x) b = Fin 0"
| "fdiv d a (Fin y) = signed_inf (negative a \<noteq> (y < 0))"
| "fdiv d a b = NaN"

fun fexp :: "dtype \<Rightarrow> flt \<Rightarrow> flt" where
  "fexp d NInf = Fin 0"
| "fexp d (Fin r) = ovf d (exp r)"
| "fexp d PInf = PInf"
| "fexp d NaN = NaN"

text \<open>
  \<^verbatim>\<open>astype\<close> to a float type keeps the special values and turns a number beyond the
  range of the target into an infinity.
\<close>

fun astype :: "dtype \<Rightarrow> flt \<Rightarrow> flt" where
  "astype d (Fin r) = ovf d r"
| "astype d NInf = NInf"
| "astype d PInf = PInf"
| "astype d NaN = NaN"

fun the_fin :: "flt \<Rightarrow> real" where
  "the_fin (Fin r) = r"
| "the_fin NInf = 0"
| "the_fin PInf = 0"
| "the_fin NaN = 0"

fun finite_flt :: "flt \<Rightarrow> bool" where
  "finite_flt (Fin r) = True"
| "finite_flt NInf = False"
| "finite_flt PInf = False"
| "finite_flt NaN = False"

text \<open>
  \<^verbatim>\<open>np.sum\<close> over an axis adds the elements of a row in the type of the array, and
  does not fix the order of the additions (it sums pairwise, in blocks). So the sum is
  the parameter \<open>sm\<close> of the model, and \<open>is_np_sum\<close> says what every order of the
  additions gives: numbers whose magnitudes add up to a value within the range of the
  format have their real sum; a nan makes the sum nan; plus infinity among numbers
  that are not negative makes it plus infinity, and minus infinity among numbers that
  are not positive makes it minus infinity. Of a row in which numbers of both signs
  overflow on the way, \<open>is_np_sum\<close> says nothing. The sum from left to right, starting
  from 0, is one such function.
\<close>

type_synonym summation = "dtype \<Rightarrow> flt list \<Rightarrow> flt"

definition is_np_sum :: "summation \<Rightarrow> bool" where
  "is_np_sum sm =
     ((\<forall>d xs b. (\<forall>v \<in> set xs. finite_flt v \<and> \<bar>the_fin v\<bar> \<le> b)
                  \<and> real (length xs) * b \<le> max_finite d
                \<longrightarrow> sm d xs = Fin (sum_list (map the_fin xs)))
      \<and> (\<forall>d xs. NaN \<in> set xs \<longrightarrow> sm d xs = NaN)
      \<and> (\<forall>d xs. PInf \<in> set xs
                  \<and> (\<forall>v \<in> set xs. v = PInf \<or> finite_flt v \<and> 0 \<le> the_fin v)
                \<longrightarrow> sm d xs = PInf)
      \<and> (\<forall>d xs. NInf \<in> set xs
                  \<and> (\<forall>v \<in> set xs. v = NInf \<or> finite_flt v \<and> the_fin v \<le> 0)
                \<longrightarrow> sm d xs = NInf))"

definition fsum :: summation where
  "fsum d xs = foldl (fadd d) (Fin 0) xs"

section \<open>Data model\<close>

text \<open>
  An array is modelled the way numpy stores it: a shape, the type of its elements and
  the row-major buffer of the elements, so that \<^verbatim>\<open>flatten\<close>, \<^verbatim>\<open>np.resize\<close> and the
  reductions over the trailing axis are operations on that buffer. An array of an
  integer type is the array of its values.
\<close>

datatype error = ValueError | IndexError | TypeError

record tensor =
  shape :: "nat list"
  dtype :: dtype
  data :: "flt list"

definition wf_tensor :: "tensor \<Rightarrow> bool" where
  "wf_tensor t = (length (data t) = prod_list (shape t))"

record Prediction =
  class_name :: string
  confidence :: flt
  timestamp :: string

section \<open>ImagePreprocessor\<close>

text \<open>
  \<^verbatim>\<open>image.astype(np.float32) / 255.0\<close>: the cast first, then the division, in
  float32.
\<close>

definition normalize :: "tensor \<Rightarrow> tensor" where
  "normalize img =
     \<lparr>shape = shape img, dtype = F32,
      data = map (\<lambda>v. fdiv F32 (astype F32 v) (Fin 255)) (data img)\<rparr>"

text \<open>
  \<^verbatim>\<open>np.resize(a, new_shape)\<close>: a negative dimension raises; an empty source or an
  empty target gives zeros; otherwise the flattened source is repeated
  \<open>ceil (new_size / size)\<close> times and cut to the new size. The element type is kept.
\<close>

definition np_resize :: "tensor \<Rightarrow> int list \<Rightarrow> error + tensor" where
  "np_resize a new_shape =
     (if \<exists>d \<in> set new_shape. d < 0 then Inl ValueError
      else
        let ns = map nat new_shape;
            new_size = prod_list ns;
            flat = data a
        in if length flat = 0 \<or> new_size = 0
           then Inr \<lparr>shape = ns, dtype = dtype a, data = replicate new_size (Fin 0)\<rparr>
           else
             let repeats = (new_size + length flat - 1) div length flat
             in Inr \<lparr>shape = ns, dtype = dtype a,
                     data = take new_size (concat (replicate repeats flat))\<rparr>)"

definition resize :: "tensor \<Rightarrow> int \<times> int \<Rightarrow> error + tensor" where
  "resize img sz =
     np_resize img
       [fst sz, snd sz,
        (if length (shape img) > 2 then int (shape img ! 2) else 1)]"

definition preprocess :: "tensor \<Rightarrow> int \<times> int \<Rightarrow> error + tensor" where
  "preprocess img target_size =
     (case resize img target_size of
        Inl e \<Rightarrow> Inl e
      | Inr processed \<Rightarrow> Inr (normalize processed))"

definition default_target_size :: "int \<times> int" where
  "default_target_size = (224, 224)"

section \<open>CNNLayer\<close>

text \<open>
  A layer keeps its hyperparameters and the lazily created parameters. \<^verbatim>\<open>weights\<close>
  and \<^verbatim>\<open>bias\<close> are \<open>None\<close> until the first forward pass (or until they are set from
  outside). The constructor stores its arguments and checks nothing.
\<close>

record layer =
  filters :: int
  kernel_size :: int
  activation :: string
  weights :: "real list option"
  bias :: "flt list option"

definition CNNLayer_init :: "int \<Rightarrow> int \<Rightarrow> string \<Rightarrow> error + layer" where
  "CNNLayer_init f k a =
     Inr \<lparr>filters = f, kernel_size = k, activation = a, weights = None, bias = None\<rparr>"

text \<open>
  The rows of a tensor along its trailing axis: one list of \<open>last (shape x)\<close> values for
  each of the \<open>prod_list (butlast (shape x))\<close> positions, in buffer order. A
  0-dimensional array has one position, and the row there is its single element:
  numpy accepts \<^verbatim>\<open>axis=-1\<close> in a reduction of a 0-dimensional array.
\<close>

definition position_rows :: "tensor \<Rightarrow> flt list list" where
  "position_rows x =
     (if shape x = [] then [data x]
      else
        let c = last (shape x);
            p = prod_list (butlast (shape x))
        in map (\<lambda>j. take c (drop (j * c) (data x))) [0..<p])"

text \<open>
  First use: \<^verbatim>\<open>np.random.randn(filters, x.shape[-1], k, k) * 0.1\<close> and
  \<^verbatim>\<open>np.zeros(filters)\<close>. The random generator is a stream \<open>rnd\<close> of samples read from
  position \<open>pos\<close> on. \<^verbatim>\<open>x.shape[-1]\<close> raises IndexError on a 0-dimensional array and
  a negative dimension makes \<^verbatim>\<open>randn\<close> raise ValueError.
\<close>

definition materialize ::
    "(nat \<Rightarrow> real) \<Rightarrow> nat \<Rightarrow> layer \<Rightarrow> tensor \<Rightarrow> error + (layer \<times> nat)" where
  "materialize rnd pos l x =
     (case weights l of
        Some w \<Rightarrow> Inr (l, pos)
      | None \<Rightarrow>
          if shape x = [] then Inl IndexError
          else if filters l < 0 \<or> kernel_size l < 0 then Inl ValueError
          else
            let n = nat (filters l) * last (shape x)
                      * nat (kernel_size l) * nat (kernel_size l)
            in Inr (l\<lparr>weights := Some (map (\<lambda>i. rnd (pos + i) * 0.1) [0..<n]),
                      bias := Some (replicate (nat (filters l)) (Fin 0))\<rparr>,
                    pos + n))"

text \<open>
  \<^verbatim>\<open>np.sum(x, axis=-1) * 0.1 + self.bias[i]\<close> at one position, for the row \<open>r\<close> of
  \<open>x\<close> there. The sum and the product have the type of \<open>x\<close>; the bias is a float64,
  the sum with it is a float64 (the promotion of numpy 2), and the result is stored in
  the float64 array \<^verbatim>\<open>output\<close>.
\<close>

definition channel_value :: "summation \<Rightarrow> dtype \<Rightarrow> flt list \<Rightarrow> flt \<Rightarrow> flt" where
  "channel_value sm d r b = fadd F64 (fmul d (sm d r) (Fin (1 / 10))) b"

text \<open>
  The loop \<^verbatim>\<open>output[..., i] = np.sum(x, axis=-1) * 0.1 + self.bias[i]\<close> over
  \<^verbatim>\<open>range(filters)\<close>, on \<^verbatim>\<open>np.zeros((*x.shape[:-1], filters))\<close>. A negative number
  of filters is no dimension, and \<^verbatim>\<open>np.zeros\<close> raises ValueError. With no filter the
  loop body never runs. Otherwise a missing bias raises TypeError and a short one
  IndexError.
\<close>

definition linear_transform :: "summation \<Rightarrow> layer \<Rightarrow> tensor \<Rightarrow> error + tensor" where
  "linear_transform sm l x =
     (if filters l < 0 then Inl ValueError
      else if filters l = 0
      then Inr \<lparr>shape = butlast (shape x) @ [0], dtype = F64, data = []\<rparr>
      else
        case bias l of
          None \<Rightarrow> Inl TypeError
        | Some b \<Rightarrow>
            if length b < nat (filters l) then Inl IndexError
            else Inr \<lparr>shape = butlast (shape x) @ [nat (filters l)], dtype = F64,
                      data = concat (map (\<lambda>r. map (\<lambda>i. channel_value sm (dtype x) r (b ! i))
                                                  [0..<nat (filters l)])
                                         (position_rows x))\<rparr>)"

text \<open>
  \<^verbatim>\<open>exp = np.exp(output - np.max(output, axis=-1, keepdims=True))\<close> and
  \<^verbatim>\<open>exp / np.sum(exp, axis=-1, keepdims=True)\<close> on one row, in float64.
\<close>

definition softmax_row :: "summation \<Rightarrow> flt list \<Rightarrow> flt list" where
  "softmax_row sm r =
     (let m = Max (set r);
          e = map (\<lambda>v. fexp F64 (fsub F64 v m)) r;
          s = sm F64 e
      in map (\<lambda>v. fdiv F64 v s) e)"

text \<open>
  The activation. \<^verbatim>\<open>np.maximum(0, output)\<close> is the maximum in the order above.
  \<^verbatim>\<open>np.max(output, axis=-1, keepdims=True)\<close> raises ValueError when the trailing axis
  is empty. Any activation name other than \<^verbatim>\<open>relu\<close> and \<^verbatim>\<open>softmax\<close> leaves the output
  as it is.
\<close>

definition activate :: "summation \<Rightarrow> string \<Rightarrow> tensor \<Rightarrow> error + tensor" where
  "activate sm a output =
     (if a = ''relu'' then Inr (output\<lparr>data := map (max (Fin 0)) (data output)\<rparr>)
      else if a = ''softmax'' then
        (if last (shape output) = 0 then Inl ValueError
         else Inr (output\<lparr>data := concat (map (softmax_row sm) (position_rows output))\<rparr>))
      else Inr output)"

definition forward ::
    "summation \<Rightarrow> (nat \<Rightarrow> real) \<Rightarrow> nat \<Rightarrow> layer \<Rightarrow> tensor
       \<Rightarrow> error + (tensor \<times> layer \<times> nat)" where
  "forward sm rnd pos l x =
     (case materialize rnd pos l x of
        Inl e \<Rightarrow> Inl e
      | Inr (l', pos') \<Rightarrow>
          (case linear_transform sm l' x of
             Inl e \<Rightarrow> Inl e
           | Inr output \<Rightarrow>
               (case activate sm (activation l') output of
                  Inl e \<Rightarrow> Inl e
                | Inr out \<Rightarrow> Inr (out, l', pos'))))"

text \<open>
  The softmax of the specification, in its own words: subtract the maximum of the row,
  exponentiate, divide by the sum of the exponentials. \<open>stable_softmax_spec\<close> says it
  with the operations of float64 and \<open>softmax_formula\<close> over the reals.
\<close>

definition stable_softmax_spec :: "summation \<Rightarrow> flt list \<Rightarrow> flt list" where
  "stable_softmax_spec sm r =
     map (\<lambda>v. fdiv F64 (fexp F64 (fsub F64 v (Max (set r))))
                (sm F64 (map (\<lambda>u. fexp F64 (fsub F64 u (Max (set r)))) r))) r"

definition softmax_formula :: "real list \<Rightarrow> real list" where
  "softmax_formula r =
     map (\<lambda>v. exp (v - Max (set r)) / (\<Sum>u\<leftarrow>r. exp (u - Max (set r)))) r"

text \<open>
  The exponential of \<open>v - m\<close> as float64 gives it for \<open>v \<le> m\<close>: a difference
  below the range of float64 is minus infinity, and its exponential is 0.
\<close>

definition exp_shift :: "real \<Rightarrow> real \<Rightarrow> real" where
  "exp_shift m v = (if v - m \<le> - limit64 then 0 else exp (v - m))"

text \<open>
  What a layer with a zero bias does to one row: every channel gets the same value, and
  the activation is applied to that row of equal values.
\<close>

definition activate_row :: "summation \<Rightarrow> string \<Rightarrow> flt list \<Rightarrow> flt list" where
  "activate_row sm a r =
     (if a = ''relu'' then map (max (Fin 0)) r
      else if a = ''softmax'' then softmax_row sm r
      else r)"

definition layer_row ::
    "summation \<Rightarrow> dtype \<Rightarrow> int \<Rightarrow> string \<Rightarrow> flt list \<Rightarrow> flt list" where
  "layer_row sm d f a r =
     activate_row sm a (replicate (nat f) (channel_value sm d r (Fin 0)))"

definition net_row :: "summation \<Rightarrow> dtype \<Rightarrow> int \<Rightarrow> flt list \<Rightarrow> flt list" where
  "net_row sm d n r =
     layer_row sm F64 n ''softmax''
       (layer_row sm F64 128 ''relu''
          (layer_row sm F64 64 ''relu''
             (layer_row sm d 32 ''relu'' r)))"

section \<open>AIImageClassifier\<close>

record classifier =
  num_classes :: int
  classes :: "string list"
  model :: "layer list"
  training_history :: "real list"

definition class_table :: "string list" where
  "class_table =
     [''Airplane'', ''Automobile'', ''Bird'', ''Cat'', ''Deer'',
      ''Dog'', ''Frog'', ''Horse'', ''Ship'', ''Truck'']"

definition build_model :: "int \<Rightarrow> error + layer list" where
  "build_model n =
     (case CNNLayer_init 32 3 ''relu'' of
        Inl e \<Rightarrow> Inl e
      | Inr l1 \<Rightarrow>
     (case CNNLayer_init 64 3 ''relu'' of
        Inl e \<Rightarrow> Inl e
      | Inr l2 \<Rightarrow>
     (case CNNLayer_init 128 3 ''relu'' of
        Inl e \<Rightarrow> Inl e
      | Inr l3 \<Rightarrow>
     (case CNNLayer_init n 1 ''softmax'' of
        Inl e \<Rightarrow> Inl e
      | Inr l4 \<Rightarrow> Inr [l1, l2, l3, l4]))))"

definition AIImageClassifier_init :: "int \<Rightarrow> error + classifier" where
  "AIImageClassifier_init n =
     (case build_model n of
        Inl e \<Rightarrow> Inl e
      | Inr m \<Rightarrow>
          Inr \<lparr>num_classes = n, classes = class_table, model = m, training_history = []\<rparr>)"

text \<open>
  The loop \<^verbatim>\<open>for layer in self.model: x = layer.forward(x)\<close>. The layers are updated
  in place, so the loop returns the new layers with the result. An exception leaves the
  loop; the model keeps only the error then.
\<close>

fun model_forward ::
    "summation \<Rightarrow> (nat \<Rightarrow> real) \<Rightarrow> nat \<Rightarrow> layer list \<Rightarrow> tensor
       \<Rightarrow> error + (tensor \<times> layer list \<times> nat)" where
  "model_forward sm rnd pos [] x = Inr (x, [], pos)"
| "model_forward sm rnd pos (l # ls) x =
     (case forward sm rnd pos l x of
        Inl e \<Rightarrow> Inl e
      | Inr (y, l', pos') \<Rightarrow>
          (case model_forward sm rnd pos' ls y of
             Inl e \<Rightarrow> Inl e
           | Inr (z, ls', pos'') \<Rightarrow> Inr (z, l' # ls', pos'')))"

text \<open>Python's slices \<^verbatim>\<open>xs[:n]\<close> and \<^verbatim>\<open>xs[s:]\<close>, for any integer bound.\<close>

definition slice_upto :: "int \<Rightarrow> 'a list \<Rightarrow> 'a list" where
  "slice_upto n xs =
     (if 0 \<le> n then take (nat n) xs else take (length xs - nat (- n)) xs)"

definition slice_from :: "int \<Rightarrow> 'a list \<Rightarrow> 'a list" where
  "slice_from s xs =
     (if 0 \<le> s then drop (nat s) xs else drop (length xs - nat (- s)) xs)"

text \<open>
  \<^verbatim>\<open>np.argmax\<close>: the index of the first occurrence of the maximum (of the first nan
  when there is one); ValueError on an empty array.
\<close>

fun first_index :: "flt \<Rightarrow> flt list \<Rightarrow> nat" where
  "first_index m [] = 0"
| "first_index m (x # xs) = (if x = m then 0 else Suc (first_index m xs))"

definition np_argmax :: "flt list \<Rightarrow> error + nat" where
  "np_argmax v = (if v = [] then Inl ValueError else Inr (first_index (Max (set v)) v))"

text \<open>
  \<^verbatim>\<open>predict\<close>. The clock reading \<^verbatim>\<open>datetime.now().isoformat()\<close> is the argument
  \<open>now\<close>. Slicing a 0-dimensional array raises IndexError.
\<close>

definition predict ::
    "summation \<Rightarrow> (nat \<Rightarrow> real) \<Rightarrow> nat \<Rightarrow> string \<Rightarrow> classifier \<Rightarrow> tensor
       \<Rightarrow> error + (Prediction \<times> classifier \<times> nat)" where
  "predict sm rnd pos now c img =
     (case preprocess img default_target_size of
        Inl e \<Rightarrow> Inl e
      | Inr processed \<Rightarrow>
          (case model_forward sm rnd pos (model c) processed of
             Inl e \<Rightarrow> Inl e
           | Inr (x, ls, pos') \<Rightarrow>
               if shape x = [] then Inl IndexError
               else
                 let predictions = slice_upto (num_classes c) (data x)
                 in (case np_argmax predictions of
                       Inl e \<Rightarrow> Inl e
                     | Inr class_idx \<Rightarrow>
                         Inr (\<lparr>class_name =
                                  (if class_idx < length (classes c)
                                   then classes c ! class_idx else ''Unknown''),
                                confidence = predictions ! class_idx,
                                timestamp = now\<rparr>,
                              c\<lparr>model := ls\<rparr>, pos'))))"

fun predict_batch ::
    "summation \<Rightarrow> (nat \<Rightarrow> real) \<Rightarrow> nat \<Rightarrow> (nat \<Rightarrow> string) \<Rightarrow> nat \<Rightarrow> classifier
       \<Rightarrow> tensor list \<Rightarrow> error + (Prediction list \<times> classifier \<times> nat)" where
  "predict_batch sm rnd pos clk k c [] = Inr ([], c, pos)"
| "predict_batch sm rnd pos clk k c (img # imgs) =
     (case predict sm rnd pos (clk k) c img of
        Inl e \<Rightarrow> Inl e
      | Inr (p, c', pos') \<Rightarrow>
          (case predict_batch sm rnd pos' clk (Suc k) c' imgs of
             Inl e \<Rightarrow> Inl e
           | Inr (ps, c'', pos'') \<Rightarrow> Inr (p # ps, c'', pos'')))"

text \<open>
  \<^verbatim>\<open>np.argsort\<close> with its default kind does not fix the order of equal values, so
  the sort is the parameter \<open>srt\<close>, and \<open>is_argsort\<close> says what numpy promises of its
  result: a permutation of the indices along which the values ascend. The stable sort
  \<open>argsort_stable\<close> is one such function.
\<close>

definition is_argsort :: "flt list \<Rightarrow> nat list \<Rightarrow> bool" where
  "is_argsort v p = (mset p = mset [0..<length v] \<and> sorted (map (\<lambda>i. v ! i) p))"

definition argsort_stable :: "flt list \<Rightarrow> nat list" where
  "argsort_stable v = sort_key (\<lambda>i. v ! i) [0..<length v]"

text \<open>
  \<^verbatim>\<open>get_top_predictions\<close>. \<^verbatim>\<open>np.argsort(predictions)[-top_k:][::-1]\<close> is the reverse
  of the slice from \<open>- top_k\<close>. The clock is read once for each appended result:
  \<open>clk j\<close> is its \<open>j\<close>-th reading.
\<close>

definition get_top_predictions ::
    "summation \<Rightarrow> (flt list \<Rightarrow> nat list) \<Rightarrow> (nat \<Rightarrow> real) \<Rightarrow> nat \<Rightarrow> (nat \<Rightarrow> string)
       \<Rightarrow> classifier \<Rightarrow> tensor \<Rightarrow> int
       \<Rightarrow> error + (Prediction list \<times> classifier \<times> nat)" where
  "get_top_predictions sm srt rnd pos clk c img top_k =
     (case preprocess img default_target_size of
        Inl e \<Rightarrow> Inl e
      | Inr processed \<Rightarrow>
          (case model_forward sm rnd pos (model c) processed of
             Inl e \<Rightarrow> Inl e
           | Inr (x, ls, pos') \<Rightarrow>
               if shape x = [] then Inl IndexError
               else
                 let predictions = slice_upto (num_classes c) (data x);
                     top_indices = rev (slice_from (- top_k) (srt predictions));
                     kept = filter (\<lambda>idx. idx < length (classes c)) top_indices;
                     results =
                       map (\<lambda>(j, idx).
                              \<lparr>class_name = classes c ! idx,
                               confidence = predictions ! idx,
                               timestamp = clk j\<rparr>)
                           (enumerate 0 kept)
                 in Inr (results, c\<lparr>model := ls\<rparr>, pos')))"

record report =
  primary_prediction :: "string \<times> flt"
  all_predictions :: "(string \<times> flt) list"
  model_info :: "int \<times> string \<times> nat"
  report_timestamp :: string

text \<open>
  \<^verbatim>\<open>analyze_image\<close>. \<^verbatim>\<open>top_predictions[0]\<close> raises IndexError on an empty list.
\<close>

definition analyze_image ::
    "summation \<Rightarrow> (flt list \<Rightarrow> nat list) \<Rightarrow> (nat \<Rightarrow> real) \<Rightarrow> nat \<Rightarrow> (nat \<Rightarrow> string)
       \<Rightarrow> classifier \<Rightarrow> tensor \<Rightarrow> error + (report \<times> classifier \<times> nat)" where
  "analyze_image sm srt rnd pos clk c img =
     (case get_top_predictions sm srt rnd pos clk c img 3 of
        Inl e \<Rightarrow> Inl e
      | Inr (top_predictions, c', pos') \<Rightarrow>
          (case top_predictions of
             [] \<Rightarrow> Inl IndexError
           | p0 # rest \<Rightarrow>
               Inr (\<lparr>primary_prediction = (class_name p0, confidence p0),
                     all_predictions =
                       map (\<lambda>p. (class_name p, confidence p)) top_predictions,
                     model_info = (num_classes c', ''CNN'', length (model c')),
                     report_timestamp = clk (length top_predictions)\<rparr>,
                    c', pos')))"

text \<open>
  The states of a layer in which its bias is all zeros: either not yet materialised (the
  first forward pass sets the bias to zeros) or materialised with a zero bias. A
  classifier built by the constructor has four such layers, and keeps them.
\<close>

definition zero_bias :: "layer \<Rightarrow> bool" where
  "zero_bias l =
     (0 \<le> filters l
      \<and> (case weights l of
            None \<Rightarrow> 0 \<le> kernel_size l
          | Some w \<Rightarrow> bias l = Some (replicate (nat (filters l)) (Fin 0))))"

definition standard_model :: "int \<Rightarrow> layer list \<Rightarrow> bool" where
  "standard_model n ls =
     (map filters ls = [32, 64, 128, n]
      \<and> map activation ls = [''relu'', ''relu'', ''relu'', ''softmax'']
      \<and> list_all zero_bias ls)"

definition built :: "int \<Rightarrow> classifier \<Rightarrow> bool" where
  "built n c = (num_classes c = n \<and> classes c = class_table \<and> standard_model n (model c))"

text \<open>
  The number of channels \<^verbatim>\<open>preprocess\<close> gives the resized image, and the images whose
  values are numbers of magnitude at most \<open>B\<close>, where \<open>B\<close> is small enough for the
  cast to float32 and for the float32 sum of the normalised channels of a pixel to stay
  finite.
\<close>

definition channels :: "tensor \<Rightarrow> nat" where
  "channels img = (if length (shape img) > 2 then shape img ! 2 else 1)"

definition in_range :: "real \<Rightarrow> tensor \<Rightarrow> bool" where
  "in_range B img =
     (0 \<le> B \<and> B \<le> max32 \<and> real (channels img) * B \<le> 255 * max32
      \<and> list_all (\<lambda>v. finite_flt v \<and> \<bar>the_fin v\<bar> \<le> B) (data img))"

text \<open>
  The scores that \<^verbatim>\<open>predict\<close> and \<^verbatim>\<open>get_top_predictions\<close> read on a classifier as
  built: what the four layers make of the first pixel of the preprocessed image.
\<close>

definition scores :: "summation \<Rightarrow> int \<Rightarrow> tensor \<Rightarrow> flt list" where
  "scores sm n img =
     (case preprocess img default_target_size of
        Inl e \<Rightarrow> []
      | Inr t \<Rightarrow> net_row sm F32 n (take (channels img) (data t)))"

text \<open>
  Concrete inputs for the closed examples: a random stream that always draws 0, a
  clock that always reads the same instant, a one-pixel RGB image, and a one-pixel
  image of float64 with a value beyond the range of float32.
\<close>

definition no_noise :: "nat \<Rightarrow> real" where
  "no_noise i = 0"

definition fixed_clock :: "nat \<Rightarrow> string" where
  "fixed_clock j = ''2024-01-01T00:00:00''"

definition sample_image :: tensor where
  "sample_image = \<lparr>shape = [1, 1, 3], dtype = F64, data = [Fin 7, Fin 8, Fin 9]\<rparr>"


section \<open>Properties of the floating-point values\<close>

lemma relu_simps:
  "max (Fin 0) (Fin a) = Fin (max 0 a)"
  "max (Fin 0) PInf = PInf"
  "max (Fin 0) NaN = NaN"
  "max (Fin 0) NInf = Fin 0"
  by (simp_all add: max_def less_eq_flt_def)

lemma Fin_le_iff: "Fin x \<le> Fin y \<longleftrightarrow> x \<le> y"
  by (simp add: less_eq_flt_def)

lemma max32_lower: "2 ^ 127 \<le> max32"
proof -
  have "(1::real) \<le> 2 - 1 / 2 ^ 23"
    by simp
  then have "1 * (2::real) ^ 127 \<le> (2 - 1 / 2 ^ 23) * 2 ^ 127"
    by (intro mult_right_mono) simp_all
  then show ?thesis
    by (simp only: max32_def mult_1)
qed

lemma max32_upper: "max32 \<le> 2 ^ 128"
proof -
  have "(2 - 1 / 2 ^ 23) * (2::real) ^ 127 \<le> 2 * 2 ^ 127"
    by (intro mult_right_mono) simp_all
  then show ?thesis
    by (simp only: max32_def power_Suc [symmetric] numeral_eq_Suc) simp
qed

lemma max64_lower: "2 ^ 1023 \<le> max64"
proof -
  have "(1::real) \<le> 2 - 1 / 2 ^ 52"
    by simp
  then have "1 * (2::real) ^ 1023 \<le> (2 - 1 / 2 ^ 52) * 2 ^ 1023"
    by (intro mult_right_mono) simp_all
  then show ?thesis
    by (simp only: max64_def mult_1)
qed

lemma max32_le_max64: "1000 * max32 \<le> max64"
proof -
  have "1000 * max32 \<le> 1000 * (2::real) ^ 128"
    using max32_upper by simp
  also have "\<dots> \<le> 2 ^ 10 * 2 ^ 128"
    by simp
  also have "\<dots> = (2::real) ^ 138"
    by (simp only: power_add [symmetric]) simp
  also have "\<dots> \<le> 2 ^ 1023"
    by (intro power_increasing) simp_all
  also have "\<dots> \<le> max64"
    by (rule max64_lower)
  finally show ?thesis .
qed

lemma max32_pos: "0 < max32"
  using max32_lower by (simp add: less_le_trans [of 0 "2 ^ 127"])

lemma max_finite_lower: "max32 \<le> max_finite d"
  using max32_le_max64 max32_pos by (cases d) simp_all

lemma max_finite_less_limit: "max_finite d < limit d"
proof (cases d)
  case F32
  have "(2 - 1 / 2 ^ 23) * (2::real) ^ 127 < (2 - 1 / 2 ^ 24) * 2 ^ 127"
    by (intro mult_strict_right_mono) simp_all
  then show ?thesis
    by (simp only: F32 max_finite.simps limit.simps max32_def limit32_def)
next
  case F64
  have "(2 - 1 / 2 ^ 52) * (2::real) ^ 1023 < (2 - 1 / 2 ^ 53) * 2 ^ 1023"
    by (intro mult_strict_right_mono) simp_all
  then show ?thesis
    by (simp only: F64 max_finite.simps limit.simps max64_def limit64_def)
qed

lemma ovf_below_limit:
  assumes "\<bar>r\<bar> < limit d"
  shows "ovf d r = Fin r"
  using assms by (auto simp add: ovf_def)

lemma ovf_Fin:
  assumes "\<bar>r\<bar> \<le> max_finite d"
  shows "ovf d r = Fin r"
proof -
  have "\<bar>r\<bar> < limit d"
    using assms max_finite_less_limit [of d] by simp
  then show ?thesis
    by (rule ovf_below_limit)
qed


lemma fsum_Nil: "fsum d [] = Fin 0"
  by (simp add: fsum_def)

lemma fsum_snoc: "fsum d (xs @ [x]) = fadd d (fsum d xs) x"
  by (simp add: fsum_def)

lemma fsum_finite:
  assumes "\<forall>v \<in> set r. finite_flt v \<and> \<bar>the_fin v\<bar> \<le> b"
    and "real (length r) * b \<le> max_finite d"
  shows "fsum d r = Fin (sum_list (map the_fin r))
         \<and> \<bar>sum_list (map the_fin r)\<bar> \<le> real (length r) * b"
  using assms
proof (induction r rule: rev_induct)
  case Nil
  then show ?case
    by (simp add: fsum_Nil)
next
  case (snoc v r)
  from snoc.prems(1) obtain q where v: "v = Fin q" and q: "\<bar>q\<bar> \<le> b"
    by (cases v) simp_all
  have b: "0 \<le> b"
    using q by simp
  have "real (length r) * b \<le> real (length (r @ [v])) * b"
    using b by (intro mult_right_mono) simp_all
  then have small: "real (length r) * b \<le> max_finite d"
    using snoc.prems(2) by simp
  from snoc.IH [OF _ small] snoc.prems(1)
  have ih: "fsum d r = Fin (sum_list (map the_fin r))"
      "\<bar>sum_list (map the_fin r)\<bar> \<le> real (length r) * b"
    by simp_all
  have bound: "\<bar>sum_list (map the_fin r) + q\<bar> \<le> real (length (r @ [v])) * b"
    using ih(2) q by (simp add: algebra_simps)
  then have "\<bar>sum_list (map the_fin r) + q\<bar> \<le> max_finite d"
    using snoc.prems(2) by simp
  then have "ovf d (sum_list (map the_fin r) + q) = Fin (sum_list (map the_fin r) + q)"
    by (rule ovf_Fin)
  then show ?case
    using bound by (simp add: fsum_snoc ih(1) v)
qed

lemma foldl_fadd_NaN: "foldl (fadd d) NaN xs = NaN"
  by (induction xs) simp_all

lemma foldl_fadd_has_NaN:
  assumes "NaN \<in> set xs"
  shows "foldl (fadd d) a xs = NaN"
  using assms
proof (induction xs arbitrary: a)
  case Nil
  then show ?case by simp
next
  case (Cons x xs)
  show ?case
  proof (cases "x = NaN")
    case True
    have "fadd d a NaN = NaN"
      by (cases a) simp_all
    then show ?thesis
      using True by (simp add: foldl_fadd_NaN)
  next
    case False
    then have "NaN \<in> set xs"
      using Cons.prems by auto
    then show ?thesis
      using Cons.IH by simp
  qed
qed

lemma foldl_fadd_from_PInf:
  assumes "\<forall>v \<in> set xs. v = PInf \<or> finite_flt v \<and> 0 \<le> the_fin v"
  shows "foldl (fadd d) PInf xs = PInf"
  using assms
proof (induction xs)
  case Nil
  then show ?case by simp
next
  case (Cons x xs)
  have "fadd d PInf x = PInf"
    using Cons.prems by (cases x) auto
  then show ?case
    using Cons by simp
qed

lemma foldl_fadd_has_PInf:
  assumes "PInf \<in> set xs"
    and "\<forall>v \<in> set xs. v = PInf \<or> finite_flt v \<and> 0 \<le> the_fin v"
    and "a = PInf \<or> finite_flt a \<and> 0 \<le> the_fin a"
  shows "foldl (fadd d) a xs = PInf"
  using assms
proof (induction xs arbitrary: a)
  case Nil
  then show ?case by simp
next
  case (Cons x xs)
  have lp: "0 < limit d"
    using max_finite_less_limit [of d] max_finite_lower [of d] max32_pos by simp
  show ?case
  proof (cases "fadd d a x = PInf")
    case True
    then show ?thesis
      using Cons.prems(2) by (simp add: foldl_fadd_from_PInf)
  next
    case False
    have x: "x = PInf \<or> finite_flt x \<and> 0 \<le> the_fin x"
      using Cons.prems(2) by simp
    have nx: "x \<noteq> PInf"
    proof
      assume "x = PInf"
      then have "fadd d a x = PInf"
        using Cons.prems(3) by (cases a) auto
      then show False
        using False by simp
    qed
    have na: "a \<noteq> PInf"
    proof
      assume "a = PInf"
      then have "fadd d a x = PInf"
        using x by (cases x) auto
      then show False
        using False by simp
    qed
    from nx x obtain q where q: "x = Fin q" "0 \<le> q"
      by (cases x) auto
    from na Cons.prems(3) obtain r where r: "a = Fin r" "0 \<le> r"
      by (cases a) auto
    have "fadd d a x = ovf d (r + q)"
      by (simp add: q r)
    moreover have "\<not> r + q \<le> - limit d"
      using q(2) r(2) lp by simp
    ultimately have "fadd d a x = Fin (r + q)"
      using False by (simp add: ovf_def split: if_splits)
    then have acc: "fadd d a x = PInf \<or> finite_flt (fadd d a x) \<and> 0 \<le> the_fin (fadd d a x)"
      using q(2) r(2) by simp
    have "PInf \<in> set xs"
      using Cons.prems(1) nx by auto
    then have "foldl (fadd d) (fadd d a x) xs = PInf"
      using Cons.prems(2) acc by (intro Cons.IH) simp_all
    then show ?thesis
      by simp
  qed
qed

lemma foldl_fadd_from_NInf:
  assumes "\<forall>v \<in> set xs. v = NInf \<or> finite_flt v \<and> the_fin v \<le> 0"
  shows "foldl (fadd d) NInf xs = NInf"
  using assms
proof (induction xs)
  case Nil
  then show ?case by simp
next
  case (Cons x xs)
  have "fadd d NInf x = NInf"
    using Cons.prems by (cases x) auto
  then show ?case
    using Cons by simp
qed

lemma foldl_fadd_has_NInf:
  assumes "NInf \<in> set xs"
    and "\<forall>v \<in> set xs. v = NInf \<or> finite_flt v \<and> the_fin v \<le> 0"
    and "a = NInf \<or> finite_flt a \<and> the_fin a \<le> 0"
  shows "foldl (fadd d) a xs = NInf"
  using assms
proof (induction xs arbitrary: a)
  case Nil
  then show ?case by simp
next
  case (Cons x xs)
  have lp: "0 < limit d"
    using max_finite_less_limit [of d] max_finite_lower [of d] max32_pos by simp
  show ?case
  proof (cases "fadd d a x = NInf")
    case True
    then show ?thesis
      using Cons.prems(2) by (simp add: foldl_fadd_from_NInf)
  next
    case False
    have x: "x = NInf \<or> finite_flt x \<and> the_fin x \<le> 0"
      using Cons.prems(2) by simp
    have nx: "x \<noteq> NInf"
    proof
      assume "x = NInf"
      then have "fadd d a x = NInf"
        using Cons.prems(3) by (cases a) auto
      then show False
        using False by simp
    qed
    have na: "a \<noteq> NInf"
    proof
      assume "a = NInf"
      then have "fadd d a x = NInf"
        using x by (cases x) auto
      then show False
        using False by simp
    qed
    from nx x obtain q where q: "x = Fin q" "q \<le> 0"
      by (cases x) auto
    from na Cons.prems(3) obtain r where r: "a = Fin r" "r \<le> 0"
      by (cases a) auto
    have "fadd d a x = ovf d (r + q)"
      by (simp add: q r)
    moreover have "\<not> limit d \<le> r + q"
      using q(2) r(2) lp by simp
    ultimately have "fadd d a x = Fin (r + q)"
      using False by (simp add: ovf_def split: if_splits)
    then have acc: "fadd d a x = NInf \<or> finite_flt (fadd d a x) \<and> the_fin (fadd d a x) \<le> 0"
      using q(2) r(2) by simp
    have "NInf \<in> set xs"
      using Cons.prems(1) nx by auto
    then have "foldl (fadd d) (fadd d a x) xs = NInf"
      using Cons.prems(2) acc by (intro Cons.IH) simp_all
    then show ?thesis
      by simp
  qed
qed

lemma fsum_ok: "is_np_sum fsum"
proof -
  have a: "fsum d xs = Fin (sum_list (map the_fin xs))"
    if "(\<forall>v \<in> set xs. finite_flt v \<and> \<bar>the_fin v\<bar> \<le> b)
        \<and> real (length xs) * b \<le> max_finite d" for d xs b
    using that fsum_finite [of xs b d] by blast
  have b: "fsum d xs = NaN" if "NaN \<in> set xs" for d xs
    using that by (simp add: fsum_def foldl_fadd_has_NaN)
  have c: "fsum d xs = PInf"
    if "PInf \<in> set xs \<and> (\<forall>v \<in> set xs. v = PInf \<or> finite_flt v \<and> 0 \<le> the_fin v)"
    for d xs
    using that by (simp add: fsum_def foldl_fadd_has_PInf)
  have e: "fsum d xs = NInf"
    if "NInf \<in> set xs \<and> (\<forall>v \<in> set xs. v = NInf \<or> finite_flt v \<and> the_fin v \<le> 0)"
    for d xs
    using that by (simp add: fsum_def foldl_fadd_has_NInf)
  show ?thesis
    unfolding is_np_sum_def using a b c e by blast
qed

lemma sum_abs_bound:
  assumes "\<forall>v \<in> set r. finite_flt v \<and> \<bar>the_fin v\<bar> \<le> b"
  shows "\<bar>sum_list (map the_fin r)\<bar> \<le> real (length r) * b"
  using assms
proof (induction r)
  case Nil
  then show ?case by simp
next
  case (Cons v r)
  have "\<bar>the_fin v + sum_list (map the_fin r)\<bar> \<le> \<bar>the_fin v\<bar> + \<bar>sum_list (map the_fin r)\<bar>"
    by (rule abs_triangle_ineq)
  also have "\<dots> \<le> b + real (length r) * b"
    using Cons by (intro add_mono) simp_all
  finally show ?case
    by (simp add: algebra_simps)
qed

lemma np_sum_finite:
  assumes "is_np_sum sm" and "\<forall>v \<in> set r. finite_flt v \<and> \<bar>the_fin v\<bar> \<le> b"
    and "real (length r) * b \<le> max_finite d"
  shows "sm d r = Fin (sum_list (map the_fin r))
         \<and> \<bar>sum_list (map the_fin r)\<bar> \<le> real (length r) * b"
proof -
  from assms(1) have "\<forall>d xs b. (\<forall>v \<in> set xs. finite_flt v \<and> \<bar>the_fin v\<bar> \<le> b)
                  \<and> real (length xs) * b \<le> max_finite d
                \<longrightarrow> sm d xs = Fin (sum_list (map the_fin xs))"
    by (simp add: is_np_sum_def)
  then have "sm d r = Fin (sum_list (map the_fin r))"
    using assms(2,3) by blast
  then show ?thesis
    using sum_abs_bound [OF assms(2)] by simp
qed



section \<open>Properties of the preprocessor\<close>

lemma shape_normalize: "shape (normalize t) = shape t"
  by (simp add: normalize_def)

lemma wf_normalize: "wf_tensor t \<Longrightarrow> wf_tensor (normalize t)"
  by (simp add: normalize_def wf_tensor_def)

lemma length_concat_replicate: "length (concat (replicate n xs)) = n * length xs"
  by (induction n) simp_all

lemma ceil_div_covers:
  fixes m k :: nat
  assumes "0 < k"
  shows "m \<le> ((m + k - 1) div k) * k"
proof -
  define q where "q = (m + k - 1) div k * k"
  define r where "r = (m + k - 1) mod k"
  have "q + r = m + k - 1"
    unfolding q_def r_def by (rule div_mult_mod_eq)
  moreover have "r < k"
    unfolding r_def using assms by (rule mod_less_divisor)
  ultimately have "m \<le> q"
    by arith
  then show ?thesis
    by (simp only: q_def)
qed

lemma np_resize_ok:
  assumes "\<forall>d \<in> set new_shape. 0 \<le> d"
  shows "\<exists>t. np_resize a new_shape = Inr t \<and> shape t = map nat new_shape \<and> wf_tensor t"
proof -
  have nneg: "\<not> (\<exists>d \<in> set new_shape. d < 0)"
    using assms by auto
  show ?thesis
  proof (cases "length (data a) = 0 \<or> prod_list (map nat new_shape) = 0")
    case True
    then show ?thesis
      using nneg by (auto simp add: np_resize_def wf_tensor_def Let_def)
  next
    case False
    then have pos: "0 < length (data a)"
      by simp
    have "prod_list (map nat new_shape)
            \<le> ((prod_list (map nat new_shape) + length (data a) - 1) div length (data a))
                * length (data a)"
      by (rule ceil_div_covers [OF pos])
    then show ?thesis
      using nneg False
      by (simp add: np_resize_def wf_tensor_def Let_def length_concat_replicate)
  qed
qed

lemma preprocess_ok:
  assumes "0 \<le> th" "0 \<le> tw"
  shows "\<exists>t. preprocess img (th, tw) = Inr t
             \<and> shape t = [nat th, nat tw,
                          (if length (shape img) > 2 then shape img ! 2 else 1)]
             \<and> wf_tensor t"
proof -
  let ?c = "if length (shape img) > 2 then int (shape img ! 2) else 1"
  have "\<forall>d \<in> set [th, tw, ?c]. 0 \<le> d"
    using assms by simp
  from np_resize_ok [OF this, of img]
  obtain r where r: "np_resize img [th, tw, ?c] = Inr r"
      "shape r = map nat [th, tw, ?c]" "wf_tensor r"
    by blast
  then show ?thesis
    by (simp add: preprocess_def resize_def shape_normalize wf_normalize)
qed

lemma set_concat_replicate: "set (concat (replicate k xs)) \<subseteq> set xs"
  by (induction k) auto

lemma np_resize_values:
  assumes "np_resize a new_shape = Inr t"
  shows "set (data t) \<subseteq> set (data a) \<union> {Fin 0}"
proof -
  have sub: "x \<in> set (data a)" if "x \<in> set (take n (concat (replicate k (data a))))"
    for x n k
    using that set_take_subset [of n "concat (replicate k (data a))"]
      set_concat_replicate [of k "data a"]
    by blast
  show ?thesis
  proof (cases "length (data a) = 0 \<or> prod_list (map nat new_shape) = 0")
    case True
    then show ?thesis
      using assms by (auto simp add: np_resize_def Let_def split: if_splits)
  next
    case False
    then have "data t = take (prod_list (map nat new_shape))
        (concat (replicate ((prod_list (map nat new_shape) + length (data a) - 1)
                              div length (data a)) (data a)))"
      using assms by (auto simp add: np_resize_def Let_def split: if_splits)
    then show ?thesis
      using sub by auto
  qed
qed



lemma normalize_value_in_range:
  assumes "finite_flt u" and "\<bar>the_fin u\<bar> \<le> B" and "B \<le> max32"
  shows "fdiv F32 (astype F32 u) (Fin 255) = Fin (the_fin u / 255)"
proof -
  obtain r where u: "u = Fin r"
    using assms(1) by (cases u) simp_all
  have r: "\<bar>r\<bar> \<le> max_finite F32"
    using assms(2,3) by (simp add: u)
  then have "\<bar>r / 255\<bar> \<le> max_finite F32"
    by simp
  then have "ovf F32 (r / 255) = Fin (r / 255)"
    by (rule ovf_Fin)
  then show ?thesis
    using ovf_Fin [OF r] by (simp add: u)
qed

lemma preprocess_in_range:
  assumes "in_range B img" and "preprocess img sz = Inr t"
  shows "\<forall>v \<in> set (data t). finite_flt v \<and> \<bar>the_fin v\<bar> \<le> B / 255"
proof
  fix v
  assume v: "v \<in> set (data t)"
  from assms(2) obtain r where r: "np_resize img
        [fst sz, snd sz, (if length (shape img) > 2 then int (shape img ! 2) else 1)] = Inr r"
    and t: "t = normalize r"
    by (auto simp add: preprocess_def resize_def split: sum.splits)
  from v obtain u where u: "u \<in> set (data r)"
    and vu: "v = fdiv F32 (astype F32 u) (Fin 255)"
    by (auto simp add: t normalize_def)
  have B: "0 \<le> B" "B \<le> max32"
    using assms(1) by (simp_all add: in_range_def)
  have "u \<in> set (data img) \<union> {Fin 0}"
    using np_resize_values [OF r] u by blast
  then have fu: "finite_flt u \<and> \<bar>the_fin u\<bar> \<le> B"
    using assms(1) B(1) by (auto simp add: in_range_def list_all_iff)
  then have "v = Fin (the_fin u / 255)"
    using normalize_value_in_range [of u B] B(2) by (simp add: vu)
  then show "finite_flt v \<and> \<bar>the_fin v\<bar> \<le> B / 255"
    using fu by simp
qed

text \<open>
  Claim C8 as stated fails beyond the range of float32. The cast
  \<^verbatim>\<open>astype(np.float32)\<close> comes first and turns the float64 value \<open>10 ^ 39\<close> into
  infinity, which the division leaves as it is: the output is not \<open>10 ^ 39 / 255\<close>.
\<close>

theorem normalize_overflows:
  "data (normalize \<lparr>shape = [1], dtype = F64, data = [Fin (10 ^ 39)]\<rparr>) = [PInf]
   \<and> PInf \<noteq> Fin (10 ^ 39 / 255)"
  by (simp add: normalize_def ovf_def limit32_def signed_inf_def)

text \<open>
  Claim C8, amended. \<^verbatim>\<open>normalize\<close> casts every element to float32 and divides it by
  255, and does nothing else: the shape is kept and the result is a float32 array. A
  number \<open>r\<close> within the range of float32 (of magnitude below \<open>limit32\<close>) becomes
  \<open>r / 255\<close>: values in [0, 255] land in [0, 1] with 0 going to 0 and 255 to 1, and
  values outside [0, 255] are scaled to values outside [0, 1] (the function has no
  error branch and no clipping). A number beyond the range of float32 becomes the
  infinity of its sign, and infinities and nan are kept. The rounding of float32 is not
  modelled.
\<close>

theorem normalize_scales:
  "shape (normalize t) = shape t
   \<and> dtype (normalize t) = F32
   \<and> length (data (normalize t)) = length (data t)
   \<and> (\<forall>i < length (data t). \<forall>r.
        (data t ! i = Fin r \<and> \<bar>r\<bar> < limit32 \<longrightarrow>
           data (normalize t) ! i = Fin (r / 255)
           \<and> (0 \<le> r \<and> r \<le> 255
                \<longrightarrow> Fin 0 \<le> data (normalize t) ! i \<and> data (normalize t) ! i \<le> Fin 1)
           \<and> (r < 0 \<longrightarrow> data (normalize t) ! i < Fin 0)
           \<and> (255 < r \<longrightarrow> Fin 1 < data (normalize t) ! i))
        \<and> (data t ! i = Fin r \<and> limit32 \<le> r \<longrightarrow> data (normalize t) ! i = PInf)
        \<and> (data t ! i = Fin r \<and> r \<le> - limit32 \<longrightarrow> data (normalize t) ! i = NInf))
   \<and> (\<forall>i < length (data t).
        \<not> finite_flt (data t ! i) \<longrightarrow> data (normalize t) ! i = data t ! i)
   \<and> data (normalize \<lparr>shape = [2], dtype = F64, data = [Fin 0, Fin 255]\<rparr>) = [Fin 0, Fin 1]"
proof -
  have len: "length (data (normalize t)) = length (data t)"
    by (simp add: normalize_def)
  have dt: "dtype (normalize t) = F32"
    by (simp add: normalize_def)
  have ex: "data (normalize \<lparr>shape = [2], dtype = F64, data = [Fin 0, Fin 255]\<rparr>)
              = [Fin 0, Fin 1]"
    by (simp add: normalize_def ovf_def limit32_def)
  have nth: "data (normalize t) ! i = fdiv F32 (astype F32 (data t ! i)) (Fin 255)"
    if "i < length (data t)" for i
    using that by (simp add: normalize_def)
  have num: "\<forall>i < length (data t). \<forall>r.
        (data t ! i = Fin r \<and> \<bar>r\<bar> < limit32 \<longrightarrow>
           data (normalize t) ! i = Fin (r / 255)
           \<and> (0 \<le> r \<and> r \<le> 255
                \<longrightarrow> Fin 0 \<le> data (normalize t) ! i \<and> data (normalize t) ! i \<le> Fin 1)
           \<and> (r < 0 \<longrightarrow> data (normalize t) ! i < Fin 0)
           \<and> (255 < r \<longrightarrow> Fin 1 < data (normalize t) ! i))
        \<and> (data t ! i = Fin r \<and> limit32 \<le> r \<longrightarrow> data (normalize t) ! i = PInf)
        \<and> (data t ! i = Fin r \<and> r \<le> - limit32 \<longrightarrow> data (normalize t) ! i = NInf)"
  proof (intro allI impI)
    fix i r
    assume i: "i < length (data t)"
    have inr: "data (normalize t) ! i = Fin (r / 255)"
      if "data t ! i = Fin r \<and> \<bar>r\<bar> < limit32"
    proof -
      have a: "\<bar>r\<bar> < limit F32"
        using that by simp
      then have "\<bar>r / 255\<bar> < limit F32"
        by simp
      then have "ovf F32 (r / 255) = Fin (r / 255)"
        by (rule ovf_below_limit)
      then show ?thesis
        using that ovf_below_limit [OF a] by (simp add: nth [OF i])
    qed
    have lp: "0 < limit32"
      using max_finite_less_limit [of F32] max32_pos by simp
    have hi: "data (normalize t) ! i = PInf" if "data t ! i = Fin r \<and> limit32 \<le> r"
      using that by (simp add: nth [OF i] ovf_def signed_inf_def)
    have lo: "data (normalize t) ! i = NInf" if "data t ! i = Fin r \<and> r \<le> - limit32"
      using that lp by (simp add: nth [OF i] ovf_def signed_inf_def)
    show "(data t ! i = Fin r \<and> \<bar>r\<bar> < limit32 \<longrightarrow>
           data (normalize t) ! i = Fin (r / 255)
           \<and> (0 \<le> r \<and> r \<le> 255
                \<longrightarrow> Fin 0 \<le> data (normalize t) ! i \<and> data (normalize t) ! i \<le> Fin 1)
           \<and> (r < 0 \<longrightarrow> data (normalize t) ! i < Fin 0)
           \<and> (255 < r \<longrightarrow> Fin 1 < data (normalize t) ! i))
        \<and> (data t ! i = Fin r \<and> limit32 \<le> r \<longrightarrow> data (normalize t) ! i = PInf)
        \<and> (data t ! i = Fin r \<and> r \<le> - limit32 \<longrightarrow> data (normalize t) ! i = NInf)"
      using inr hi lo by (auto simp add: less_eq_flt_def less_flt_def)
  qed
  have spec: "\<forall>i < length (data t).
        \<not> finite_flt (data t ! i) \<longrightarrow> data (normalize t) ! i = data t ! i"
  proof (intro allI impI)
    fix i
    assume i: "i < length (data t)" and nf: "\<not> finite_flt (data t ! i)"
    show "data (normalize t) ! i = data t ! i"
      using nf by (cases "data t ! i") (simp_all add: nth [OF i] signed_inf_def)
  qed
  from shape_normalize [of t] dt len num spec ex show ?thesis
    by blast
qed

theorem normalize_scales_witness:
  "data (normalize \<lparr>shape = [3], dtype = F64, data = [Fin 0, Fin (255 / 2), Fin 510]\<rparr>) ! 1
     = Fin (1 / 2)
   \<and> data (normalize \<lparr>shape = [3], dtype = F64, data = [Fin 0, Fin (255 / 2), Fin 510]\<rparr>) ! 2
     = Fin 2
   \<and> Fin 0 \<le> data (normalize \<lparr>shape = [3], dtype = F64, data = [Fin 0, Fin (255 / 2), Fin 510]\<rparr>) ! 1
   \<and> data (normalize \<lparr>shape = [3], dtype = F64, data = [Fin 0, Fin (255 / 2), Fin 510]\<rparr>) ! 1 \<le> Fin 1
   \<and> Fin 1 < data (normalize \<lparr>shape = [3], dtype = F64, data = [Fin 0, Fin (255 / 2), Fin 510]\<rparr>) ! 2"
  using normalize_scales [of "\<lparr>shape = [3], dtype = F64, data = [Fin 0, Fin (255 / 2), Fin 510]\<rparr>"]
  by (simp add: normalize_def ovf_def limit32_def less_eq_flt_def less_flt_def)

text \<open>
  Claim C7. For target dimensions \<open>th\<close> and \<open>tw\<close> that are sizes (not negative),
  \<^verbatim>\<open>preprocess\<close> returns a tensor: of shape \<open>(th, tw, C)\<close> for an image of shape
  \<open>(H, W, C)\<close>, of shape \<open>(th, tw, 1)\<close> for an image of shape \<open>(H, W)\<close>; its buffer
  has exactly the size of that shape; and it is the normalisation of the resized
  image, so resizing comes first.
\<close>

theorem preprocess_shape:
  assumes "0 \<le> th" and "0 \<le> tw"
  shows "(shape img = [H, W, C] \<longrightarrow>
            (\<exists>t. preprocess img (th, tw) = Inr t \<and> shape t = [nat th, nat tw, C]
                 \<and> wf_tensor t))
         \<and> (shape img = [H, W] \<longrightarrow>
            (\<exists>t. preprocess img (th, tw) = Inr t \<and> shape t = [nat th, nat tw, 1]
                 \<and> wf_tensor t))
         \<and> (\<exists>r. resize img (th, tw) = Inr r
                 \<and> preprocess img (th, tw) = Inr (normalize r))"
proof -
  from preprocess_ok [OF assms, of img]
  obtain t where t: "preprocess img (th, tw) = Inr t"
      "shape t = [nat th, nat tw, (if length (shape img) > 2 then shape img ! 2 else 1)]"
      "wf_tensor t"
    by blast
  have "\<exists>r. resize img (th, tw) = Inr r \<and> preprocess img (th, tw) = Inr (normalize r)"
    using t(1) by (auto simp add: preprocess_def split: sum.splits)
  then show ?thesis
    using t by auto
qed

theorem preprocess_shape_witness:
  "(0::int) \<le> 2
   \<and> (\<exists>t. preprocess \<lparr>shape = [1, 2, 3], dtype = F64,
                       data = [Fin 255, Fin 0, Fin 51, Fin 0, Fin 0, Fin 255]\<rparr> (2, 2) = Inr t
          \<and> shape t = [2, 2, 3] \<and> wf_tensor t)
   \<and> (\<exists>t. preprocess \<lparr>shape = [1, 2], dtype = F64, data = [Fin 255, Fin 0]\<rparr> (2, 1) = Inr t
          \<and> shape t = [2, 1, 1] \<and> wf_tensor t)"
  using preprocess_shape [of 2 2 "\<lparr>shape = [1, 2, 3], dtype = F64,
                       data = [Fin 255, Fin 0, Fin 51, Fin 0, Fin 0, Fin 255]\<rparr>" 1 2 3]
    preprocess_shape [of 2 1 "\<lparr>shape = [1, 2], dtype = F64, data = [Fin 255, Fin 0]\<rparr>" 1 2]
  by simp

section \<open>Properties of a layer\<close>

lemma chunk_concat:
  assumes "\<forall>r \<in> set rs. length r = c" and "j < length rs"
  shows "take c (drop (j * c) (concat rs)) = rs ! j"
  using assms
proof (induction rs arbitrary: j)
  case Nil
  then show ?case by simp
next
  case (Cons r rs)
  show ?case
  proof (cases j)
    case 0
    then show ?thesis using Cons.prems by simp
  next
    case (Suc k)
    then show ?thesis using Cons by simp
  qed
qed

lemma position_rows_concat:
  assumes "\<forall>r \<in> set rs. length r = c" and "length rs = prod_list s"
  shows "position_rows \<lparr>shape = s @ [c], dtype = d, data = concat rs\<rparr> = rs"
proof (rule nth_equalityI)
  show "length (position_rows \<lparr>shape = s @ [c], dtype = d, data = concat rs\<rparr>) = length rs"
    using assms(2) by (simp add: position_rows_def)
next
  fix j
  assume "j < length (position_rows \<lparr>shape = s @ [c], dtype = d, data = concat rs\<rparr>)"
  then have j: "j < length rs"
    using assms(2) by (simp add: position_rows_def)
  then show "position_rows \<lparr>shape = s @ [c], dtype = d, data = concat rs\<rparr> ! j = rs ! j"
    using assms by (simp add: position_rows_def chunk_concat)
qed

lemma length_position_rows: "length (position_rows x) = prod_list (butlast (shape x))"
  by (simp add: position_rows_def Let_def)

lemma position_rows_lengths:
  assumes "wf_tensor t" and "shape t \<noteq> []"
  shows "\<forall>r \<in> set (position_rows t). length r = last (shape t)"
proof -
  define c where "c = last (shape t)"
  define P where "P = prod_list (butlast (shape t))"
  have "shape t = butlast (shape t) @ [c]"
    using assms(2) by (simp add: c_def)
  then have "prod_list (shape t) = P * c"
    unfolding P_def by (metis prod_list.append prod_list.Cons prod_list.Nil mult.right_neutral)
  then have len: "length (data t) = P * c"
    using assms(1) by (simp add: wf_tensor_def)
  have "length (take c (drop (j * c) (data t))) = c" if "j < P" for j
  proof -
    have "Suc j * c \<le> P * c"
      using that by (intro mult_le_mono1) simp
    then have "c \<le> P * c - j * c"
      by simp
    then show ?thesis
      using len by simp
  qed
  then show ?thesis
    using assms(2) by (auto simp add: position_rows_def Let_def c_def P_def)
qed

lemma position_rows_data:
  assumes "wf_tensor t" and "shape t \<noteq> []"
  shows "set (concat (position_rows t)) \<subseteq> set (data t)"
proof -
  have "set (take c (drop k (data t))) \<subseteq> set (data t)" for c k
    using set_take_subset [of c "drop k (data t)"] set_drop_subset [of k "data t"]
    by (rule subset_trans)
  then show ?thesis
    using assms(2) by (auto simp add: position_rows_def Let_def)
qed


lemma length_concat_rows:
  assumes "\<forall>r \<in> set rs. length r = c"
  shows "length (concat rs) = length rs * c"
  using assms by (induction rs) simp_all

lemma softmax_row_eq_spec: "softmax_row sm r = stable_softmax_spec sm r"
  by (simp add: softmax_row_def stable_softmax_spec_def Let_def comp_def)

lemma length_softmax_row: "length (softmax_row sm r) = length r"
  by (simp add: softmax_row_def Let_def)

lemma max64_ge_1: "1 \<le> max64"
proof -
  have "(1::real) \<le> 2 ^ 127"
    by simp
  also have "\<dots> \<le> max32"
    by (rule max32_lower)
  also have "\<dots> \<le> max64"
    using max_finite_lower [of F64] by simp
  finally show ?thesis .
qed

lemma Max_Fin:
  assumes "r \<noteq> []" and "\<forall>v \<in> set r. finite_flt v"
  shows "Max (set r) = Fin (Max (set (map the_fin r)))"
proof -
  have m: "mono Fin"
    by (rule monoI) (simp add: Fin_le_iff)
  have "Fin ` set (map the_fin r) = set r"
  proof -
    have "Fin (the_fin v) = v" if "v \<in> set r" for v
      using assms(2) that by (cases v) auto
    then show ?thesis
      by (auto simp add: image_iff)
  qed
  moreover have "Fin (Max (set (map the_fin r))) = Max (Fin ` set (map the_fin r))"
    using assms(1) by (intro mono_Max_commute [OF m]) simp_all
  ultimately show ?thesis
    by simp
qed

lemma limit64_pos: "0 < limit64" "max64 < limit64"
  using max_finite_less_limit [of F64] max64_ge_1 by simp_all

lemma exp_shift_range:
  assumes "v \<le> m"
  shows "0 \<le> exp_shift m v \<and> exp_shift m v \<le> 1"
  using assms by (simp add: exp_shift_def)

lemma fexp_fsub_finite:
  assumes "v \<le> m"
  shows "fexp F64 (fsub F64 (Fin v) (Fin m)) = Fin (exp_shift m v)"
proof (cases "v - m \<le> - limit64")
  case True
  have "\<not> limit64 \<le> v - m"
    using assms limit64_pos by simp
  then have "ovf F64 (v - m) = NInf"
    using True by (simp add: ovf_def)
  then show ?thesis
    using True by (simp add: fsub_def exp_shift_def)
next
  case False
  then have "\<bar>v - m\<bar> < limit F64"
    using assms by simp
  then have d: "ovf F64 (v - m) = Fin (v - m)"
    by (rule ovf_below_limit)
  have "exp (v - m) \<le> 1"
    using assms by simp
  from this max64_ge_1 have "exp (v - m) \<le> max64"
    by (rule order_trans)
  then have "\<bar>exp (v - m)\<bar> \<le> max_finite F64"
    by simp
  then have "ovf F64 (exp (v - m)) = Fin (exp (v - m))"
    by (rule ovf_Fin)
  then show ?thesis
    using False d by (simp add: fsub_def exp_shift_def)
qed

lemma sum_list_divide: "(\<Sum>v\<leftarrow>e. v / (s::real)) = sum_list e / s"
  by (induction e) (simp_all add: add_divide_distrib)

lemma softmax_row_finite:
  assumes sm: "is_np_sum sm" and ne: "r \<noteq> []" and fin: "\<forall>v \<in> set r. finite_flt v"
    and len: "real (length r) \<le> max64"
  defines "m \<equiv> Max (set (map the_fin r))"
  defines "s \<equiv> (\<Sum>v\<leftarrow>r. exp_shift m (the_fin v))"
  shows "softmax_row sm r = map (\<lambda>v. Fin (exp_shift m (the_fin v) / s)) r \<and> 1 \<le> s
         \<and> (\<forall>v \<in> set r. the_fin v \<le> m)"
proof -
  have mx: "Max (set r) = Fin m"
    unfolding m_def by (rule Max_Fin [OF ne fin])
  have le: "the_fin v \<le> m" if "v \<in> set r" for v
    unfolding m_def using that by (intro Max_ge) simp_all
  have e: "fexp F64 (fsub F64 v (Fin m)) = Fin (exp_shift m (the_fin v))" if "v \<in> set r" for v
  proof -
    from fin that have "finite_flt v"
      by blast
    then obtain q where q: "v = Fin q"
      by (cases v) simp_all
    then show ?thesis
      using fexp_fsub_finite [of q m] le [OF that] by simp
  qed
  define es where "es = map (\<lambda>v. Fin (exp_shift m (the_fin v))) r"
  have es: "map (\<lambda>v. fexp F64 (fsub F64 v (Fin m))) r = es"
    unfolding es_def using e by simp
  have rng: "\<forall>v \<in> set es. finite_flt v \<and> \<bar>the_fin v\<bar> \<le> 1"
    unfolding es_def using le exp_shift_range by auto
  have "real (length es) * 1 \<le> max_finite F64"
    using len by (simp add: es_def)
  from np_sum_finite [OF sm rng this]
  have "sm F64 es = Fin (sum_list (map the_fin es))"
    by simp
  moreover have "map the_fin es = map (\<lambda>v. exp_shift m (the_fin v)) r"
    by (simp add: es_def)
  ultimately have sum: "sm F64 es = Fin s"
    by (simp add: s_def)
  have "m \<in> set (map the_fin r)"
    unfolding m_def using ne by (intro Max_in) simp_all
  then obtain w where w: "w \<in> set r" "the_fin w = m"
    by auto
  have "exp_shift m (the_fin w) \<in> set (map (\<lambda>v. exp_shift m (the_fin v)) r)"
    using w(1) by simp
  moreover have "\<forall>x \<in> set (map (\<lambda>v. exp_shift m (the_fin v)) r). 0 \<le> x"
    using le exp_shift_range by auto
  ultimately have "exp_shift m (the_fin w) \<le> s"
    unfolding s_def using member_le_sum_list by blast
  moreover have "exp_shift m (the_fin w) = 1"
    using limit64_pos by (simp add: w(2) exp_shift_def)
  ultimately have s1: "1 \<le> s"
    by simp
  have d: "fdiv F64 (Fin (exp_shift m (the_fin v))) (Fin s) = Fin (exp_shift m (the_fin v) / s)"
    if "v \<in> set r" for v
  proof -
    have "0 \<le> exp_shift m (the_fin v)" "exp_shift m (the_fin v) \<le> 1"
      using exp_shift_range [OF le [OF that]] by simp_all
    then have "0 \<le> exp_shift m (the_fin v) / s" "exp_shift m (the_fin v) / s \<le> 1"
      using s1 by (simp_all add: divide_le_eq)
    then have "\<bar>exp_shift m (the_fin v) / s\<bar> \<le> max_finite F64"
      using max64_ge_1 by simp
    then have "ovf F64 (exp_shift m (the_fin v) / s) = Fin (exp_shift m (the_fin v) / s)"
      by (rule ovf_Fin)
    then show ?thesis
      using s1 by simp
  qed
  have "softmax_row sm r = map (\<lambda>v. fdiv F64 v (Fin s)) es"
    by (simp only: softmax_row_def Let_def mx es sum)
  also have "\<dots> = map (\<lambda>v. Fin (exp_shift m (the_fin v) / s)) r"
    unfolding es_def using d by simp
  finally show ?thesis
    using s1 le by blast
qed

lemma softmax_row_props:
  assumes sm: "is_np_sum sm" and ne: "r \<noteq> []" and fin: "\<forall>v \<in> set r. finite_flt v"
    and len: "real (length r) \<le> max64"
  shows "(\<forall>v \<in> set (softmax_row sm r). finite_flt v \<and> 0 \<le> the_fin v \<and> the_fin v \<le> 1)
         \<and> sum_list (map the_fin (softmax_row sm r)) = 1
         \<and> ((\<forall>v \<in> set r. Max (set (map the_fin r)) - the_fin v \<le> max64)
              \<longrightarrow> map the_fin (softmax_row sm r) = softmax_formula (map the_fin r))"
proof -
  define m where "m = Max (set (map the_fin r))"
  define s where "s = (\<Sum>v\<leftarrow>r. exp_shift m (the_fin v))"
  from softmax_row_finite [OF sm ne fin len]
  have sr: "softmax_row sm r = map (\<lambda>v. Fin (exp_shift m (the_fin v) / s)) r"
    and s1: "1 \<le> s" and le: "\<forall>v \<in> set r. the_fin v \<le> m"
    by (simp_all add: m_def s_def)
  have vals: "map the_fin (softmax_row sm r) = map (\<lambda>v. exp_shift m (the_fin v) / s) r"
    by (simp add: sr comp_def)
  have rng: "finite_flt v \<and> 0 \<le> the_fin v \<and> the_fin v \<le> 1" if "v \<in> set (softmax_row sm r)" for v
  proof -
    from that obtain u where u: "u \<in> set r" and v: "v = Fin (exp_shift m (the_fin u) / s)"
      by (auto simp add: sr)
    have "0 \<le> exp_shift m (the_fin u)" "exp_shift m (the_fin u) \<le> 1"
      using exp_shift_range [of "the_fin u" m] le u by simp_all
    then show ?thesis
      using s1 by (simp add: v divide_le_eq)
  qed
  have "sum_list (map the_fin (softmax_row sm r))
          = (\<Sum>x\<leftarrow>map (\<lambda>v. exp_shift m (the_fin v)) r. x / s)"
    by (simp add: vals comp_def)
  also have "\<dots> = s / s"
    by (simp only: sum_list_divide s_def)
  finally have one: "sum_list (map the_fin (softmax_row sm r)) = 1"
    using s1 by simp
  have form: "map the_fin (softmax_row sm r) = softmax_formula (map the_fin r)"
    if "\<forall>v \<in> set r. Max (set (map the_fin r)) - the_fin v \<le> max64"
  proof -
    have ex: "exp_shift m (the_fin v) = exp (the_fin v - m)" if "v \<in> set r" for v
    proof -
      have "m - the_fin v \<le> max64"
        using \<open>\<forall>v \<in> set r. Max (set (map the_fin r)) - the_fin v \<le> max64\<close> that
        by (simp add: m_def)
      then have "\<not> the_fin v - m \<le> - limit64"
        using limit64_pos(2) by simp
      then show ?thesis
        by (simp add: exp_shift_def)
    qed
    then have "s = (\<Sum>v\<leftarrow>r. exp (the_fin v - m))"
      unfolding s_def by (intro arg_cong [of _ _ sum_list]) simp
    then show ?thesis
      using ex by (simp add: vals softmax_formula_def m_def comp_def)
  qed
  show ?thesis
    using rng one form by blast
qed

lemma activate_softmax_rows:
  assumes "wf_tensor t" and "shape t \<noteq> []" and "0 < last (shape t)"
  shows "\<exists>out. activate sm ''softmax'' t = Inr out \<and> shape out = shape t \<and> wf_tensor out
           \<and> position_rows out = map (softmax_row sm) (position_rows t)"
proof -
  let ?rs = "map (softmax_row sm) (position_rows t)"
  let ?out = "t\<lparr>data := concat ?rs\<rparr>"
  have act: "activate sm ''softmax'' t = Inr ?out"
    using assms(3) by (simp add: activate_def)
  have lens: "\<forall>r \<in> set ?rs. length r = last (shape t)"
    using position_rows_lengths [OF assms(1,2)] by (simp add: length_softmax_row)
  have n: "length ?rs = prod_list (butlast (shape t))"
    by (simp add: length_position_rows)
  have sh: "shape t = butlast (shape t) @ [last (shape t)]"
    using assms(2) by simp
  have "?out = \<lparr>shape = butlast (shape t) @ [last (shape t)], dtype = dtype t,
                 data = concat ?rs\<rparr>"
    using sh by simp
  then have rows: "position_rows ?out = ?rs"
    using position_rows_concat [OF lens n] by simp
  have "prod_list (shape t) = prod_list (butlast (shape t)) * last (shape t)"
    by (metis sh prod_list.append prod_list.Cons prod_list.Nil mult.right_neutral)
  then have "wf_tensor ?out"
    using length_concat_rows [OF lens] n by (simp add: wf_tensor_def)
  then show ?thesis
    using act rows by simp
qed

text \<open>
  Claim C6. On a tensor of numbers whose trailing axis is not empty, and with every
  order of the additions in \<^verbatim>\<open>np.sum\<close>, the softmax activation of a layer returns a
  tensor of the same shape whose row at every position is the numerically stable
  softmax of the input row (maximum subtracted, exponentials, divided by their sum).
  Every value of the result is a number in [0, 1] and every row
  sums to 1, within 1e-6 in particular. Where no difference to the maximum of the row
  leaves the range of float64 (below it the exponential is 0 in place of a value
  smaller than any float64), the row is the softmax formula over the reals. The length
  of the axis is an array dimension, below \<open>2 ^ 63\<close>. Rounding is not modelled.
\<close>

theorem softmax_activation_stable:
  assumes "wf_tensor t" and "shape t \<noteq> []" and "0 < last (shape t)"
    and "last (shape t) < 2 ^ 63" and "\<forall>v \<in> set (data t). finite_flt v"
    and "is_np_sum sm"
  shows "\<exists>out. activate sm ''softmax'' t = Inr out \<and> shape out = shape t
           \<and> position_rows out = map (stable_softmax_spec sm) (position_rows t)
           \<and> (\<forall>row \<in> set (position_rows out).
                 sum_list (map the_fin row) = 1
                 \<and> \<bar>sum_list (map the_fin row) - 1\<bar> \<le> 1 / 10 ^ 6
                 \<and> (\<forall>v \<in> set row. finite_flt v \<and> 0 \<le> the_fin v \<and> the_fin v \<le> 1
                                   \<and> Fin 0 \<le> v \<and> v \<le> Fin 1))
           \<and> (\<forall>j < length (position_rows t).
                 (\<forall>v \<in> set (position_rows t ! j).
                     Max (set (map the_fin (position_rows t ! j))) - the_fin v \<le> max64)
                 \<longrightarrow> map the_fin (position_rows out ! j)
                       = softmax_formula (map the_fin (position_rows t ! j)))"
proof -
  from activate_softmax_rows [OF assms(1,2,3)]
  obtain out where out: "activate sm ''softmax'' t = Inr out" "shape out = shape t"
      "position_rows out = map (softmax_row sm) (position_rows t)"
    by blast
  have spec: "position_rows out = map (stable_softmax_spec sm) (position_rows t)"
    using out(3) by (simp add: softmax_row_eq_spec)
  have lens: "\<forall>r \<in> set (position_rows t). length r = last (shape t)"
    by (rule position_rows_lengths [OF assms(1,2)])
  have ne: "r \<noteq> []" if "r \<in> set (position_rows t)" for r
    using lens assms(3) that by auto
  have fin: "\<forall>v \<in> set r. finite_flt v" if "r \<in> set (position_rows t)" for r
    using position_rows_data [OF assms(1,2)] assms(5) that by auto
  have "real (last (shape t)) \<le> 2 ^ 63"
    using assms(4) by (simp add: of_nat_less_iff [of _ "2 ^ 63", where ?'a = real, simplified] less_imp_le)
  also have "(2::real) ^ 63 \<le> 2 ^ 127"
    by (intro power_increasing) simp_all
  also have "\<dots> \<le> max64"
    using max32_lower max_finite_lower [of F64] by simp
  finally have big: "real (last (shape t)) \<le> max64" .
  have len: "real (length r) \<le> max64" if "r \<in> set (position_rows t)" for r
    using lens big that by simp
  have rows: "sum_list (map the_fin row) = 1
          \<and> \<bar>sum_list (map the_fin row) - 1\<bar> \<le> 1 / 10 ^ 6
          \<and> (\<forall>v \<in> set row. finite_flt v \<and> 0 \<le> the_fin v \<and> the_fin v \<le> 1
                            \<and> Fin 0 \<le> v \<and> v \<le> Fin 1)"
    if "row \<in> set (position_rows out)" for row
  proof -
    from that out(3) obtain r where r: "r \<in> set (position_rows t)" "row = softmax_row sm r"
      by auto
    note p = softmax_row_props [OF assms(6) ne [OF r(1)] fin [OF r(1)] len [OF r(1)]]
    have "finite_flt v \<and> 0 \<le> the_fin v \<and> the_fin v \<le> 1 \<and> Fin 0 \<le> v \<and> v \<le> Fin 1"
      if "v \<in> set row" for v
    proof -
      have a: "finite_flt v \<and> 0 \<le> the_fin v \<and> the_fin v \<le> 1"
        using p that r(2) by blast
      then obtain q where "v = Fin q"
        by (cases v) auto
      then show ?thesis
        using a by (simp add: Fin_le_iff)
    qed
    then show ?thesis
      using p r(2) by simp
  qed
  have form: "map the_fin (position_rows out ! j)
                = softmax_formula (map the_fin (position_rows t ! j))"
    if "j < length (position_rows t)"
      and "\<forall>v \<in> set (position_rows t ! j).
              Max (set (map the_fin (position_rows t ! j))) - the_fin v \<le> max64" for j
  proof -
    have r: "position_rows t ! j \<in> set (position_rows t)"
      using that(1) by simp
    have "position_rows out ! j = softmax_row sm (position_rows t ! j)"
      using that(1) by (simp add: out(3))
    then show ?thesis
      using softmax_row_props [OF assms(6) ne [OF r] fin [OF r] len [OF r]] that(2) by simp
  qed
  show ?thesis
    using out(1,2) spec rows form by blast
qed

theorem softmax_activation_stable_witness:
  "is_np_sum fsum
   \<and> wf_tensor \<lparr>shape = [1, 2], dtype = F64, data = [Fin 0, Fin 0]\<rparr>
   \<and> position_rows \<lparr>shape = [1, 2], dtype = F64, data = [Fin 0, Fin 0]\<rparr> = [[Fin 0, Fin 0]]
   \<and> (\<exists>out. activate fsum ''softmax'' \<lparr>shape = [1, 2], dtype = F64, data = [Fin 0, Fin 0]\<rparr>
               = Inr out
         \<and> position_rows out = [stable_softmax_spec fsum [Fin 0, Fin 0]]
         \<and> (\<forall>row \<in> set (position_rows out).
               sum_list (map the_fin row) = 1
               \<and> (\<forall>v \<in> set row. Fin 0 \<le> v \<and> v \<le> Fin 1))
         \<and> map the_fin (position_rows out ! 0) = softmax_formula [0, 0])"
proof -
  let ?t = "\<lparr>shape = [1, 2], dtype = F64, data = [Fin 0, Fin 0]\<rparr>"
  have w: "wf_tensor ?t"
    by (simp add: wf_tensor_def)
  have r: "position_rows ?t = [[Fin 0, Fin 0]]"
    by (simp add: position_rows_def)
  have m: "(0::real) \<le> max64"
    using max64_ge_1 by simp
  show ?thesis
    using softmax_activation_stable [of ?t fsum] w r m fsum_ok
    by auto
qed




lemma channel_value_finite:
  assumes "is_np_sum sm"
    and "\<forall>v \<in> set r. finite_flt v \<and> \<bar>the_fin v\<bar> \<le> B"
    and "real (length r) * B \<le> max_finite d"
    and "\<bar>sum_list (map the_fin r) / 10 + q\<bar> \<le> max64"
  shows "channel_value sm d r (Fin q) = Fin (sum_list (map the_fin r) / 10 + q)"
proof -
  define s where "s = sum_list (map the_fin r)"
  from np_sum_finite [OF assms(1,2,3)]
  have sum: "sm d r = Fin s" and bound: "\<bar>s\<bar> \<le> real (length r) * B"
    by (simp_all add: s_def)
  have "\<bar>s / 10\<bar> \<le> \<bar>s\<bar>"
    by simp
  then have "\<bar>s / 10\<bar> \<le> max_finite d"
    using bound assms(3) by simp
  then have m: "ovf d (s / 10) = Fin (s / 10)"
    by (rule ovf_Fin)
  have "\<bar>s / 10 + q\<bar> \<le> max_finite F64"
    using assms(4) by (simp add: s_def)
  then have a: "ovf F64 (s / 10 + q) = Fin (s / 10 + q)"
    by (rule ovf_Fin)
  have "channel_value sm d r (Fin q) = fadd F64 (fmul d (Fin s) (Fin (1 / 10))) (Fin q)"
    by (simp only: channel_value_def sum)
  also have "\<dots> = Fin (s / 10 + q)"
    by (simp add: m a)
  finally show ?thesis
    by (simp add: s_def)
qed




lemma materialize_zero_bias:
  assumes "zero_bias l" and "shape x \<noteq> []"
  shows "\<exists>l' pos'. materialize rnd pos l x = Inr (l', pos')
           \<and> bias l' = Some (replicate (nat (filters l)) (Fin 0))
           \<and> filters l' = filters l \<and> activation l' = activation l \<and> zero_bias l'"
  using assms
  by (cases "weights l") (auto simp add: materialize_def zero_bias_def Let_def)

lemma map_zero_bias_row:
  "map (\<lambda>i. g (replicate f z ! i)) [0..<f] = replicate f (g z)"
  by (rule nth_equalityI) simp_all

lemma linear_zero_bias:
  assumes "bias l = Some (replicate (nat (filters l)) (Fin 0))" and "0 \<le> filters l"
  shows "linear_transform sm l x
           = Inr \<lparr>shape = butlast (shape x) @ [nat (filters l)], dtype = F64,
                  data = concat (map (\<lambda>r. replicate (nat (filters l))
                                               (channel_value sm (dtype x) r (Fin 0)))
                                     (position_rows x))\<rparr>"
proof (cases "filters l = 0")
  case True
  then show ?thesis
    by (simp add: linear_transform_def)
next
  case False
  then show ?thesis
    using assms by (simp add: linear_transform_def map_zero_bias_row)
qed

lemma length_activate_row: "length (activate_row sm a r) = length r"
  by (simp add: activate_row_def length_softmax_row)

lemma activate_row_relu: "activate_row sm ''relu'' = map (max (Fin 0))"
  by (rule ext) (simp add: activate_row_def)

lemma activate_row_softmax: "activate_row sm ''softmax'' = softmax_row sm"
  by (rule ext) (simp add: activate_row_def)

lemma activate_row_other:
  assumes "a \<noteq> ''relu''" and "a \<noteq> ''softmax''"
  shows "activate_row sm a = (\<lambda>r. r)"
  using assms by (intro ext) (simp add: activate_row_def)

lemma head_row:
  assumes "shape x = s @ [c]" and "0 < prod_list s"
  shows "position_rows x ! 0 = take c (data x)"
  using assms by (simp add: position_rows_def Let_def)

lemma activate_concat:
  assumes lens: "\<forall>r \<in> set rs. length r = c" and n: "length rs = prod_list s"
    and soft: "a = ''softmax'' \<longrightarrow> 0 < c"
  shows "activate sm a \<lparr>shape = s @ [c], dtype = d, data = concat rs\<rparr>
           = Inr \<lparr>shape = s @ [c], dtype = d, data = concat (map (activate_row sm a) rs)\<rparr>"
proof -
  have rows: "position_rows \<lparr>shape = s @ [c], dtype = d, data = concat rs\<rparr> = rs"
    by (rule position_rows_concat [OF lens n])
  show ?thesis
  proof (cases "a = ''relu''")
    case True
    then show ?thesis
      by (simp add: activate_def map_concat activate_row_relu)
  next
    case False
    show ?thesis
    proof (cases "a = ''softmax''")
      case True
      then show ?thesis
        using soft by (simp add: activate_def rows activate_row_softmax)
    next
      case nsm: False
      then show ?thesis
        using False by (simp add: activate_def activate_row_other)
    qed
  qed
qed

lemma forward_zero_bias:
  assumes zb: "zero_bias l" and sh: "shape x \<noteq> []"
    and soft: "activation l = ''softmax'' \<longrightarrow> 0 < filters l"
  shows "\<exists>out l' pos'. forward sm rnd pos l x = Inr (out, l', pos')
           \<and> shape out = butlast (shape x) @ [nat (filters l)]
           \<and> dtype out = F64 \<and> wf_tensor out
           \<and> zero_bias l' \<and> filters l' = filters l \<and> activation l' = activation l
           \<and> position_rows out
               = map (layer_row sm (dtype x) (filters l) (activation l)) (position_rows x)"
proof -
  define f where "f = nat (filters l)"
  define a where "a = activation l"
  from materialize_zero_bias [OF zb sh, of rnd pos]
  obtain l' pos' where m: "materialize rnd pos l x = Inr (l', pos')"
    and b: "bias l' = Some (replicate (nat (filters l)) (Fin 0))"
    and keep: "filters l' = filters l" "activation l' = activation l" "zero_bias l'"
    by blast
  have nonneg: "0 \<le> filters l'"
    using zb keep(1) by (simp add: zero_bias_def)
  define rs where
    "rs = map (\<lambda>r. replicate f (channel_value sm (dtype x) r (Fin 0))) (position_rows x)"
  define s where "s = butlast (shape x)"
  have lt: "linear_transform sm l' x = Inr \<lparr>shape = s @ [f], dtype = F64, data = concat rs\<rparr>"
    using linear_zero_bias [of l' sm x] b keep(1) nonneg by (simp add: f_def rs_def s_def)
  have lens: "\<forall>r \<in> set rs. length r = f"
    by (auto simp add: rs_def)
  have n: "length rs = prod_list s"
    by (simp add: rs_def s_def length_position_rows)
  have soft': "a = ''softmax'' \<longrightarrow> 0 < f"
    using soft by (simp add: a_def f_def)
  define out where
    "out = \<lparr>shape = s @ [f], dtype = F64, data = concat (map (activate_row sm a) rs)\<rparr>"
  have act: "activate sm a \<lparr>shape = s @ [f], dtype = F64, data = concat rs\<rparr> = Inr out"
    unfolding out_def by (rule activate_concat [OF lens n soft'])
  have lens': "\<forall>r \<in> set (map (activate_row sm a) rs). length r = f"
    using lens by (simp add: length_activate_row)
  have n': "length (map (activate_row sm a) rs) = prod_list s"
    using n by simp
  have rows: "position_rows out = map (activate_row sm a) rs"
    unfolding out_def by (rule position_rows_concat [OF lens' n'])
  have "map (activate_row sm a) rs = map (layer_row sm (dtype x) (filters l) a) (position_rows x)"
    by (simp add: rs_def layer_row_def f_def comp_def)
  then have rows': "position_rows out
      = map (layer_row sm (dtype x) (filters l) (activation l)) (position_rows x)"
    using rows by (simp add: a_def)
  have wf: "wf_tensor out"
    using length_concat_rows [OF lens'] n by (simp add: out_def wf_tensor_def)
  have fw: "forward sm rnd pos l x = Inr (out, l', pos')"
    using m lt act keep(2) by (simp add: forward_def a_def)
  have "shape out = butlast (shape x) @ [nat (filters l)]" "dtype out = F64"
    by (simp_all add: out_def s_def f_def)
  then show ?thesis
    using fw wf keep rows' by blast
qed

section \<open>Properties of the classifier\<close>

lemma standard_model_layers:
  assumes "standard_model n ls"
  obtains l1 l2 l3 l4 where "ls = [l1, l2, l3, l4]"
    and "filters l1 = 32" "filters l2 = 64" "filters l3 = 128" "filters l4 = n"
    and "activation l1 = ''relu''" "activation l2 = ''relu''"
        "activation l3 = ''relu''" "activation l4 = ''softmax''"
    and "zero_bias l1" "zero_bias l2" "zero_bias l3" "zero_bias l4"
proof -
  from assms have "map filters ls = [32, 64, 128, n]"
    by (simp add: standard_model_def)
  then have "length (map filters ls) = length [32, 64, 128, n]"
    by (rule arg_cong)
  then have "length ls = Suc (Suc (Suc (Suc 0)))"
    by simp
  then obtain l1 l2 l3 l4 where ls: "ls = [l1, l2, l3, l4]"
    by (auto simp add: length_Suc_conv)
  show ?thesis
    using assms that [OF ls] by (simp add: ls standard_model_def)
qed

lemma model_forward_standard:
  assumes std: "standard_model n ls" and n: "1 \<le> n" and sh: "shape x = [h, w, ch]"
  shows "\<exists>y ls' pos'. model_forward sm rnd pos ls x = Inr (y, ls', pos')
           \<and> shape y = [h, w, nat n] \<and> wf_tensor y
           \<and> position_rows y = map (net_row sm (dtype x) n) (position_rows x)
           \<and> standard_model n ls'"
proof -
  from std obtain l1 l2 l3 l4 where ls: "ls = [l1, l2, l3, l4]"
    and f: "filters l1 = 32" "filters l2 = 64" "filters l3 = 128" "filters l4 = n"
    and a: "activation l1 = ''relu''" "activation l2 = ''relu''"
           "activation l3 = ''relu''" "activation l4 = ''softmax''"
    and z: "zero_bias l1" "zero_bias l2" "zero_bias l3" "zero_bias l4"
    by (rule standard_model_layers)
  have x: "shape x \<noteq> []"
    using sh by simp
  from forward_zero_bias [OF z(1) x, of sm rnd pos] a(1)
  obtain y1 k1 p1 where s1: "forward sm rnd pos l1 x = Inr (y1, k1, p1)"
    and y1: "shape y1 = [h, w, 32]" "dtype y1 = F64"
    and r1: "position_rows y1 = map (layer_row sm (dtype x) 32 ''relu'') (position_rows x)"
    and k1: "zero_bias k1" "filters k1 = 32" "activation k1 = ''relu''"
    using sh f(1) by auto
  from forward_zero_bias [of l2 y1 sm rnd p1] z(2) a(2) y1
  obtain y2 k2 p2 where s2: "forward sm rnd p1 l2 y1 = Inr (y2, k2, p2)"
    and y2: "shape y2 = [h, w, 64]" "dtype y2 = F64"
    and r2: "position_rows y2 = map (layer_row sm F64 64 ''relu'') (position_rows y1)"
    and k2: "zero_bias k2" "filters k2 = 64" "activation k2 = ''relu''"
    using f(2) by auto
  from forward_zero_bias [of l3 y2 sm rnd p2] z(3) a(3) y2
  obtain y3 k3 p3 where s3: "forward sm rnd p2 l3 y2 = Inr (y3, k3, p3)"
    and y3: "shape y3 = [h, w, 128]" "dtype y3 = F64"
    and r3: "position_rows y3 = map (layer_row sm F64 128 ''relu'') (position_rows y2)"
    and k3: "zero_bias k3" "filters k3 = 128" "activation k3 = ''relu''"
    using f(3) by auto
  from forward_zero_bias [of l4 y3 sm rnd p3] z(4) a(4) y3 n
  obtain y4 k4 p4 where s4: "forward sm rnd p3 l4 y3 = Inr (y4, k4, p4)"
    and y4: "shape y4 = [h, w, nat n]" "wf_tensor y4"
    and r4: "position_rows y4 = map (layer_row sm F64 n ''softmax'') (position_rows y3)"
    and k4: "zero_bias k4" "filters k4 = n" "activation k4 = ''softmax''"
    using f(4) by auto
  have rows: "position_rows y4 = map (net_row sm (dtype x) n) (position_rows x)"
    by (simp add: r4 r3 r2 r1 net_row_def comp_def)
  have "model_forward sm rnd pos ls x = Inr (y4, [k1, k2, k3, k4], p4)"
    by (simp add: ls s1 s2 s3 s4)
  moreover have "standard_model n [k1, k2, k3, k4]"
    using k1 k2 k3 k4 by (simp add: standard_model_def)
  ultimately show ?thesis
    using y4 rows by blast
qed

lemma preprocess_default:
  "\<exists>t. preprocess img default_target_size = Inr t
       \<and> shape t = [224, 224, channels img] \<and> dtype t = F32 \<and> wf_tensor t"
proof -
  from preprocess_ok [of 224 224 img]
  obtain t where t: "preprocess img default_target_size = Inr t"
    "shape t = [224, 224, channels img]" "wf_tensor t"
    by (auto simp add: default_target_size_def channels_def)
  have "dtype t = F32"
    using t(1) by (auto simp add: preprocess_def normalize_def split: sum.splits)
  then show ?thesis
    using t by blast
qed

lemma length_layer_row: "length (layer_row sm d f a r) = nat f"
  by (simp add: layer_row_def length_activate_row)

lemma length_net_row: "length (net_row sm d n r) = nat n"
  by (simp add: net_row_def length_layer_row)

lemma length_scores: "length (scores sm n img) = nat n"
  using preprocess_default [of img] by (auto simp add: scores_def length_net_row)

lemma class_scores_built:
  assumes b: "built n c" and n: "1 \<le> n"
  shows "\<exists>x ls pos' t. preprocess img default_target_size = Inr t
           \<and> model_forward sm rnd pos (model c) t = Inr (x, ls, pos')
           \<and> shape x \<noteq> []
           \<and> slice_upto (num_classes c) (data x) = scores sm n img
           \<and> built n (c\<lparr>model := ls\<rparr>)"
proof -
  from preprocess_default [of img]
  obtain t where t: "preprocess img default_target_size = Inr t"
    and sh: "shape t = [224, 224, channels img]" and dt: "dtype t = F32"
    by blast
  from b have std: "standard_model n (model c)" and nc: "num_classes c = n"
    and cl: "classes c = class_table"
    by (simp_all add: built_def)
  from model_forward_standard [OF std n sh, of sm rnd pos]
  obtain x ls pos' where mf: "model_forward sm rnd pos (model c) t = Inr (x, ls, pos')"
    and x: "shape x = [224, 224, nat n]"
    and rows: "position_rows x = map (net_row sm (dtype t) n) (position_rows t)"
    and std': "standard_model n ls"
    by blast
  have p: "0 < prod_list [224, 224::nat]"
    by simp
  have "shape x = [224, 224] @ [nat n]" "shape t = [224, 224] @ [channels img]"
    by (simp_all add: x sh)
  then have "position_rows x ! 0 = take (nat n) (data x)"
    and "position_rows t ! 0 = take (channels img) (data t)"
    using p by (simp_all only: head_row)
  moreover have "0 < length (position_rows t)"
    by (simp add: length_position_rows sh)
  then have "position_rows x ! 0 = net_row sm F32 n (position_rows t ! 0)"
    by (simp add: rows dt)
  ultimately have "take (nat n) (data x) = net_row sm F32 n (take (channels img) (data t))"
    by simp
  then have "slice_upto (num_classes c) (data x) = scores sm n img"
    using n by (simp add: slice_upto_def nc scores_def t)
  moreover have "built n (c\<lparr>model := ls\<rparr>)"
    using nc cl std' by (simp add: built_def)
  moreover have "shape x \<noteq> []"
    by (simp add: x)
  ultimately show ?thesis
    using t mf by blast
qed

lemma max_finite_upper: "max_finite d \<le> max64"
  using max32_le_max64 max32_pos by (cases d) simp_all

lemma channel_value_uniform:
  assumes "is_np_sum sm" and "0 \<le> a" and "real k * a \<le> max64"
  shows "channel_value sm F64 (replicate k (Fin a)) (Fin 0) = Fin (real k * a / 10)"
proof -
  have v: "\<forall>v \<in> set (replicate k (Fin a)). finite_flt v \<and> \<bar>the_fin v\<bar> \<le> a"
    using assms(2) by simp
  have l: "real (length (replicate k (Fin a))) * a \<le> max_finite F64"
    using assms(3) by simp
  have s: "sum_list (map the_fin (replicate k (Fin a))) = real k * a"
    by (simp add: sum_list_replicate)
  have "0 \<le> real k * a"
    using assms(2) by simp
  then have "\<bar>real k * a / 10 + 0\<bar> \<le> max64"
    using assms(3) by simp
  then have "\<bar>sum_list (map the_fin (replicate k (Fin a))) / 10 + 0\<bar> \<le> max64"
    by (simp only: s)
  from channel_value_finite [OF assms(1) v l this] show ?thesis
    by (simp only: s) simp
qed

lemma layer_relu_uniform:
  assumes "is_np_sum sm" and "0 \<le> a" and "real k * a \<le> max64"
  shows "layer_row sm F64 g ''relu'' (replicate k (Fin a))
           = replicate (nat g) (Fin (real k * a / 10))"
proof -
  have "0 \<le> real k * a / 10"
    using assms(2) by simp
  then have "max (Fin 0) (Fin (real k * a / 10)) = Fin (real k * a / 10)"
    by (simp add: relu_simps)
  then show ?thesis
    by (simp add: layer_row_def channel_value_uniform [OF assms] activate_row_relu)
qed

lemma softmax_row_uniform:
  assumes "is_np_sum sm" and "0 < k" and "real k \<le> max64"
  shows "softmax_row sm (replicate k (Fin z)) = replicate k (Fin (1 / real k))"
proof -
  define r where "r = replicate k (Fin z)"
  have ne: "r \<noteq> []"
    using assms(2) by (simp add: r_def)
  have fin: "\<forall>v \<in> set r. finite_flt v"
    by (simp add: r_def)
  have len: "real (length r) \<le> max64"
    using assms(3) by (simp add: r_def)
  have "set (map the_fin r) = {z}"
    using assms(2) by (auto simp add: r_def)
  then have m: "Max (set (map the_fin r)) = z"
    by simp
  have e: "exp_shift z z = 1"
    using limit64_pos by (simp add: exp_shift_def)
  have s: "(\<Sum>v\<leftarrow>r. exp_shift z (the_fin v)) = real k"
    by (simp add: r_def e sum_list_replicate comp_def)
  from softmax_row_finite [OF assms(1) ne fin len]
  have "softmax_row sm r = map (\<lambda>v. Fin (exp_shift z (the_fin v) / real k)) r"
    by (simp only: m s)
  then show ?thesis
    by (simp add: r_def e)
qed

lemma layer_softmax_uniform:
  assumes "is_np_sum sm" and "0 \<le> a" and "real k * a \<le> max64"
    and "1 \<le> n" and "real_of_int n \<le> max64"
  shows "layer_row sm F64 n ''softmax'' (replicate k (Fin a))
           = replicate (nat n) (Fin (1 / real_of_int n))"
proof -
  have r: "real (nat n) = real_of_int n"
    using assms(4) by simp
  have "0 < nat n" "real (nat n) \<le> max64"
    using assms(4,5) by simp_all
  from softmax_row_uniform [OF assms(1) this]
  show ?thesis
    by (simp add: layer_row_def channel_value_uniform [OF assms(1,2,3)]
        activate_row_softmax r)
qed

lemma layer_relu_first:
  assumes "is_np_sum sm" and "\<forall>v \<in> set r. finite_flt v \<and> \<bar>the_fin v\<bar> \<le> b"
    and "real (length r) * b \<le> max_finite d"
  shows "\<exists>a. layer_row sm d g ''relu'' r = replicate (nat g) (Fin a)
           \<and> 0 \<le> a \<and> a \<le> max_finite d / 10"
proof -
  define s where "s = sum_list (map the_fin r)"
  from sum_abs_bound [OF assms(2)]
  have bound: "\<bar>s\<bar> \<le> real (length r) * b"
    by (simp add: s_def)
  then have sm: "\<bar>s\<bar> \<le> max_finite d"
    using assms(3) by simp
  then have "\<bar>s / 10\<bar> \<le> max64"
    using max_finite_upper [of d] by simp
  then have "\<bar>sum_list (map the_fin r) / 10 + 0\<bar> \<le> max64"
    by (simp add: s_def)
  from channel_value_finite [OF assms this]
  have cv: "channel_value sm d r (Fin 0) = Fin (s / 10)"
    by (simp add: s_def)
  have "layer_row sm d g ''relu'' r = replicate (nat g) (Fin (max 0 (s / 10)))"
    by (simp add: layer_row_def cv activate_row_relu relu_simps)
  moreover have "0 \<le> max 0 (s / 10)" "max 0 (s / 10) \<le> max_finite d / 10"
    using sm by simp_all
  ultimately show ?thesis
    by blast
qed

lemma net_row_finite:
  assumes ok: "is_np_sum sm"
    and r: "\<forall>v \<in> set r. finite_flt v \<and> \<bar>the_fin v\<bar> \<le> b"
    and l: "real (length r) * b \<le> max32"
    and n: "1 \<le> n" "real_of_int n \<le> max64"
  shows "net_row sm F32 n r = replicate (nat n) (Fin (1 / real_of_int n))"
proof -
  have l': "real (length r) * b \<le> max_finite F32"
    using l by simp
  from layer_relu_first [OF ok r l', of 32]
  obtain a1 where y1: "layer_row sm F32 32 ''relu'' r = replicate (nat 32) (Fin a1)"
    and a1: "0 \<le> a1" "a1 \<le> max32 / 10"
    by auto
  have big: "1000 * max32 \<le> max64"
    by (rule max32_le_max64)
  have b1: "real (nat 32) * a1 \<le> max64"
    using a1 big by simp
  define a2 where "a2 = real (nat 32) * a1 / 10"
  have y2: "layer_row sm F64 64 ''relu'' (replicate (nat 32) (Fin a1))
              = replicate (nat 64) (Fin a2)"
    unfolding a2_def by (rule layer_relu_uniform [OF ok a1(1) b1])
  have a2: "0 \<le> a2" "a2 \<le> 32 * max32 / 100"
    using a1 by (simp_all add: a2_def)
  have b2: "real (nat 64) * a2 \<le> max64"
    using a2 big by simp
  define a3 where "a3 = real (nat 64) * a2 / 10"
  have y3: "layer_row sm F64 128 ''relu'' (replicate (nat 64) (Fin a2))
              = replicate (nat 128) (Fin a3)"
    unfolding a3_def by (rule layer_relu_uniform [OF ok a2(1) b2])
  have a3: "0 \<le> a3" "a3 \<le> 64 * 32 * max32 / 1000"
    using a2 by (simp_all add: a3_def)
  have b3: "real (nat 128) * a3 \<le> max64"
    using a3 big by simp
  have y4: "layer_row sm F64 n ''softmax'' (replicate (nat 128) (Fin a3))
              = replicate (nat n) (Fin (1 / real_of_int n))"
    by (rule layer_softmax_uniform [OF ok a3(1) b3 n])
  show ?thesis
    by (simp only: net_row_def y1 y2 y3 y4)
qed






lemma scores_in_range:
  assumes "is_np_sum sm" and "in_range B img" and "1 \<le> n" and "real_of_int n \<le> max64"
  shows "scores sm n img = replicate (nat n) (Fin (1 / real_of_int n))"
proof -
  from preprocess_default [of img]
  obtain t where t: "preprocess img default_target_size = Inr t"
    by blast
  define r where "r = take (channels img) (data t)"
  have B: "0 \<le> B" "real (channels img) * B \<le> 255 * max32"
    using assms(2) by (simp_all add: in_range_def)
  have "set r \<subseteq> set (data t)"
    unfolding r_def by (rule set_take_subset)
  then have v: "\<forall>v \<in> set r. finite_flt v \<and> \<bar>the_fin v\<bar> \<le> B / 255"
    using preprocess_in_range [OF assms(2) t] by blast
  have "real (length r) \<le> real (channels img)"
    by (simp add: r_def)
  then have "real (length r) * B \<le> real (channels img) * B"
    using B(1) by (rule mult_right_mono)
  then have "real (length r) * B \<le> 255 * max32"
    using B(2) by simp
  then have l: "real (length r) * (B / 255) \<le> max32"
    by simp
  have "net_row sm F32 n r = replicate (nat n) (Fin (1 / real_of_int n))"
    by (rule net_row_finite [OF assms(1) v l assms(3,4)])
  then show ?thesis
    by (simp add: scores_def t r_def)
qed

lemma in_range_sample: "in_range 255 sample_image"
proof -
  have "(255::real) \<le> 2 ^ 127"
    by simp
  then have m: "255 \<le> max32"
    using max32_lower by (rule order_trans)
  then have "real 3 * 255 \<le> 255 * max32"
    by simp
  then show ?thesis
    using m by (simp add: in_range_def sample_image_def channels_def)
qed

lemma int_small:
  assumes "n \<le> 2 ^ 53"
  shows "real_of_int n \<le> max64"
proof -
  have "real_of_int n \<le> real_of_int (2 ^ 53)"
    using assms by (simp only: of_int_le_iff)
  also have "\<dots> = 2 ^ 53"
    by simp
  also have "\<dots> \<le> (2::real) ^ 127"
    by (intro power_increasing) simp_all
  also have "\<dots> \<le> max32"
    by (rule max32_lower)
  also have "\<dots> \<le> max64"
    using max_finite_lower [of F64] by simp
  finally show ?thesis .
qed

lemma scores_sample:
  assumes "is_np_sum sm" and "1 \<le> n" and "n \<le> 11"
  shows "scores sm n sample_image = replicate (nat n) (Fin (1 / real_of_int n))"
proof -
  have "n \<le> 2 ^ 53"
    using assms(3) by simp
  then have "real_of_int n \<le> max64"
    by (rule int_small)
  with assms(1) in_range_sample assms(2) show ?thesis
    by (rule scores_in_range)
qed


lemma np_argmax_replicate:
  assumes "0 < m"
  shows "np_argmax (replicate m k) = Inr 0"
proof -
  obtain j where m: "m = Suc j"
    using assms by (cases m) simp_all
  have "set (replicate m k) = {k}"
    using assms by auto
  then have "Max (set (replicate m k)) = k"
    by simp
  then show ?thesis
    by (simp add: np_argmax_def m)
qed

lemma predict_uniform:
  assumes b: "built n c" and n: "1 \<le> n" and s: "scores sm n img = replicate (nat n) v"
  shows "\<exists>c' pos'. predict sm rnd pos now c img
             = Inr (\<lparr>class_name = ''Airplane'', confidence = v, timestamp = now\<rparr>, c', pos')
           \<and> built n c'"
proof -
  from class_scores_built [OF b n, of img sm rnd pos]
  obtain x ls pos' t where t: "preprocess img default_target_size = Inr t"
    and mf: "model_forward sm rnd pos (model c) t = Inr (x, ls, pos')"
    and x: "shape x \<noteq> []"
    and sc: "slice_upto (num_classes c) (data x) = scores sm n img"
    and b': "built n (c\<lparr>model := ls\<rparr>)"
    by blast
  have pos: "0 < nat n"
    using n by simp
  have sc': "slice_upto (num_classes c) (data x) = replicate (nat n) v"
    using sc s by simp
  have am: "np_argmax (replicate (nat n) v) = Inr 0"
    by (rule np_argmax_replicate [OF pos])
  have cl: "classes c = class_table"
    using b by (simp add: built_def)
  have "predict sm rnd pos now c img
          = Inr (\<lparr>class_name = ''Airplane'', confidence = v, timestamp = now\<rparr>,
                 c\<lparr>model := ls\<rparr>, pos')"
    using pos by (simp add: predict_def t mf x sc' am cl class_table_def Let_def)
  then show ?thesis
    using b' by blast
qed

lemma predict_built_returns:
  assumes b: "built n c" and n: "1 \<le> n"
  shows "\<exists>q c' pos'. predict sm rnd pos now c img = Inr (q, c', pos') \<and> built n c'"
proof -
  from class_scores_built [OF b n, of img sm rnd pos]
  obtain x ls pos' t where t: "preprocess img default_target_size = Inr t"
    and mf: "model_forward sm rnd pos (model c) t = Inr (x, ls, pos')"
    and x: "shape x \<noteq> []"
    and sc: "slice_upto (num_classes c) (data x) = scores sm n img"
    and b': "built n (c\<lparr>model := ls\<rparr>)"
    by blast
  have "length (scores sm n img) = nat n"
    by (rule length_scores)
  then have "scores sm n img \<noteq> []"
    using n by auto
  then have "\<exists>i. np_argmax (scores sm n img) = Inr i"
    by (simp add: np_argmax_def)
  then obtain i where "np_argmax (scores sm n img) = Inr i"
    by blast
  then have "\<exists>q. predict sm rnd pos now c img = Inr (q, c\<lparr>model := ls\<rparr>, pos')"
    by (simp add: predict_def t mf x sc Let_def)
  then show ?thesis
    using b' by blast
qed

lemma built_init:
  assumes "0 \<le> n"
  shows "\<exists>c. AIImageClassifier_init n = Inr c \<and> built n c"
  using assms
  by (simp add: AIImageClassifier_init_def build_model_def CNNLayer_init_def built_def
      standard_model_def zero_bias_def)




lemma first_index_props:
  assumes "m \<in> set v"
  shows "first_index m v < length v \<and> v ! first_index m v = m
         \<and> (\<forall>j < first_index m v. v ! j \<noteq> m)"
  using assms
proof (induction v)
  case Nil
  then show ?case by simp
next
  case (Cons a v)
  show ?case
  proof (cases "a = m")
    case True
    then show ?thesis by simp
  next
    case False
    then have "m \<in> set v"
      using Cons.prems by simp
    then have ih: "first_index m v < length v \<and> v ! first_index m v = m
         \<and> (\<forall>j < first_index m v. v ! j \<noteq> m)"
      by (rule Cons.IH)
    have "(a # v) ! j \<noteq> m" if "j < Suc (first_index m v)" for j
      using that False ih by (cases j) simp_all
    then show ?thesis
      using False ih by simp
  qed
qed

lemma np_argmax_props:
  assumes "v \<noteq> []"
  shows "\<exists>i. np_argmax v = Inr i \<and> i < length v
           \<and> (\<forall>j < length v. v ! j \<le> v ! i) \<and> (\<forall>j < i. v ! j < v ! i)"
proof -
  let ?m = "Max (set v)"
  let ?i = "first_index ?m v"
  have mem: "?m \<in> set v"
    using assms by (intro Max_in) simp_all
  note fi = first_index_props [OF mem]
  have le: "v ! j \<le> ?m" if "j < length v" for j
    using that by (intro Max_ge) simp_all
  have "v ! j < v ! ?i" if "j < ?i" for j
  proof -
    have "j < length v"
      using that fi by simp
    then have "v ! j \<le> ?m"
      by (rule le)
    moreover have "v ! j \<noteq> ?m"
      using that fi by simp
    ultimately show ?thesis
      using fi by simp
  qed
  then show ?thesis
    using assms fi le by (simp add: np_argmax_def)
qed

text \<open>
  Claim C5. Let \<open>x\<close> be the output of the model on the preprocessed image and \<open>v\<close> the
  slice \<^verbatim>\<open>[:num_classes]\<close> of its flattened buffer, which is its first \<open>num_classes\<close>
  entries. If \<open>v\<close> is not empty, \<^verbatim>\<open>predict\<close> returns the prediction for the first
  index \<open>i\<close> of a maximum of \<open>v\<close> (in numpy's order, where a nan is a maximum): the
  class name is \<open>classes[i]\<close> when \<open>i\<close> is in range and Unknown otherwise, and the
  confidence is \<open>v[i]\<close>.
\<close>

theorem predict_argmax_of_truncated:
  assumes "preprocess img default_target_size = Inr t"
    and "model_forward sm rnd pos (model c) t = Inr (x, ls, pos')"
    and "shape x \<noteq> []"
    and "v = slice_upto (num_classes c) (data x)"
    and "v \<noteq> []"
  shows "(0 \<le> num_classes c \<longrightarrow> v = take (nat (num_classes c)) (data x))
         \<and> (\<exists>i. i < length v
                \<and> (\<forall>j < length v. v ! j \<le> v ! i)
                \<and> (\<forall>j < i. v ! j < v ! i)
                \<and> predict sm rnd pos now c img
                     = Inr (\<lparr>class_name = (if i < length (classes c) then classes c ! i
                                            else ''Unknown''),
                             confidence = v ! i, timestamp = now\<rparr>,
                            c\<lparr>model := ls\<rparr>, pos'))"
proof -
  from np_argmax_props [OF assms(5)]
  obtain i where i: "np_argmax v = Inr i" "i < length v"
      "\<forall>j < length v. v ! j \<le> v ! i" "\<forall>j < i. v ! j < v ! i"
    by blast
  have "predict sm rnd pos now c img
          = Inr (\<lparr>class_name = (if i < length (classes c) then classes c ! i
                                else ''Unknown''),
                  confidence = v ! i, timestamp = now\<rparr>,
                 c\<lparr>model := ls\<rparr>, pos')"
    using assms(1,2,3) i(1) by (simp add: predict_def assms(4) [symmetric] Let_def)
  moreover have "0 \<le> num_classes c \<longrightarrow> v = take (nat (num_classes c)) (data x)"
    by (simp add: assms(4) slice_upto_def)
  ultimately show ?thesis
    using i by blast
qed

theorem predict_argmax_of_truncated_witness:
  "\<exists>c t x ls pos' i.
     AIImageClassifier_init 10 = Inr c
     \<and> preprocess sample_image default_target_size = Inr t
     \<and> model_forward fsum (\<lambda>i. 0) 0 (model c) t = Inr (x, ls, pos')
     \<and> shape x \<noteq> []
     \<and> slice_upto (num_classes c) (data x) = replicate 10 (Fin (1 / 10))
     \<and> i < 10
     \<and> predict fsum (\<lambda>i. 0) 0 ''t0'' c sample_image
          = Inr (\<lparr>class_name = (if i < length (classes c) then classes c ! i
                                else ''Unknown''),
                  confidence = replicate 10 (Fin (1 / 10)) ! i, timestamp = ''t0''\<rparr>,
                 c\<lparr>model := ls\<rparr>, pos')"
proof -
  from built_init [of 10] obtain c where c: "AIImageClassifier_init 10 = Inr c" "built 10 c"
    by auto
  have n: "(1::int) \<le> 10"
    by simp
  have s: "scores fsum 10 sample_image = replicate 10 (Fin (1 / 10))"
    using scores_sample [OF fsum_ok n] by simp
  from class_scores_built [OF c(2) n, of sample_image fsum "\<lambda>i. 0" 0]
  obtain x ls pos' t where t: "preprocess sample_image default_target_size = Inr t"
    and mf: "model_forward fsum (\<lambda>i. 0) 0 (model c) t = Inr (x, ls, pos')"
    and x: "shape x \<noteq> []"
    and sc: "slice_upto (num_classes c) (data x) = replicate 10 (Fin (1 / 10))"
    unfolding s by blast
  define v where "v = slice_upto (num_classes c) (data x)"
  have veq: "v = replicate 10 (Fin (1 / 10))"
    using sc by (simp only: v_def)
  have ne: "v \<noteq> []"
    by (simp add: veq)
  from predict_argmax_of_truncated [OF t mf x v_def ne, of "''t0''"]
  obtain i where i: "i < length v"
    and pr: "predict fsum (\<lambda>i. 0) 0 ''t0'' c sample_image
          = Inr (\<lparr>class_name = (if i < length (classes c) then classes c ! i
                                else ''Unknown''),
                  confidence = v ! i, timestamp = ''t0''\<rparr>,
                 c\<lparr>model := ls\<rparr>, pos')"
    by blast
  have i10: "i < 10"
    using i by (simp add: veq)
  have pr': "predict fsum (\<lambda>i. 0) 0 ''t0'' c sample_image
          = Inr (\<lparr>class_name = (if i < length (classes c) then classes c ! i
                                else ''Unknown''),
                  confidence = replicate 10 (Fin (1 / 10)) ! i, timestamp = ''t0''\<rparr>,
                 c\<lparr>model := ls\<rparr>, pos')"
    using pr by (simp only: veq)
  show ?thesis
    using c(1) t mf x sc i10 pr' by blast
qed


lemma predict_InrD:
  assumes "predict sm rnd pos now c img = Inr (p, c', pos')"
  shows "\<exists>t x ls i. preprocess img default_target_size = Inr t
           \<and> model_forward sm rnd pos (model c) t = Inr (x, ls, pos')
           \<and> shape x \<noteq> []
           \<and> np_argmax (slice_upto (num_classes c) (data x)) = Inr i
           \<and> p = \<lparr>class_name = (if i < length (classes c) then classes c ! i
                                  else ''Unknown''),
                   confidence = slice_upto (num_classes c) (data x) ! i,
                   timestamp = now\<rparr>
           \<and> c' = c\<lparr>model := ls\<rparr>"
proof -
  obtain t where t: "preprocess img default_target_size = Inr t"
    using assms by (cases "preprocess img default_target_size") (simp_all add: predict_def)
  obtain x ls q where mf: "model_forward sm rnd pos (model c) t = Inr (x, ls, q)"
    using assms t
    by (cases "model_forward sm rnd pos (model c) t") (auto simp add: predict_def)
  have x: "shape x \<noteq> []"
  proof
    assume "shape x = []"
    then show False
      using assms t mf by (simp add: predict_def)
  qed
  obtain i where am: "np_argmax (slice_upto (num_classes c) (data x)) = Inr i"
    using assms t mf x
    by (cases "np_argmax (slice_upto (num_classes c) (data x))")
       (simp_all add: predict_def Let_def)
  have "Inr (\<lparr>class_name = (if i < length (classes c) then classes c ! i
                              else ''Unknown''),
               confidence = slice_upto (num_classes c) (data x) ! i,
               timestamp = now\<rparr>, c\<lparr>model := ls\<rparr>, q)
          = (Inr (p, c', pos') :: error + (Prediction \<times> classifier \<times> nat))"
    using assms t mf x am by (simp add: predict_def Let_def)
  then show ?thesis
    using t mf x am by simp
qed

lemma unknown_not_a_class: "''Unknown'' \<notin> set class_table"
  by (simp add: class_table_def)

text \<open>
  Claim C10. With the fixed class table and \<open>1 \<le> num_classes \<le> 10\<close>, whatever the
  layers of the model hold, a prediction that \<^verbatim>\<open>predict\<close> returns names one of the
  ten labels, at an index below \<open>num_classes\<close>, and never Unknown.
\<close>

theorem predict_never_unknown:
  assumes "classes c = class_table"
    and "1 \<le> num_classes c" and "num_classes c \<le> 10"
  shows "(built (num_classes c) c \<longrightarrow>
            (\<exists>q c' pos'. predict sm rnd pos now c img = Inr (q, c', pos')))
         \<and> (predict sm rnd pos now c img = Inr (p, c', pos') \<longrightarrow>
              class_name p \<in> set class_table \<and> class_name p \<noteq> ''Unknown''
              \<and> (\<exists>i < nat (num_classes c). class_name p = class_table ! i))"
proof (rule conjI)
  show "built (num_classes c) c \<longrightarrow>
          (\<exists>q c' pos'. predict sm rnd pos now c img = Inr (q, c', pos'))"
  proof
    assume "built (num_classes c) c"
    from predict_built_returns [OF this assms(2), of sm rnd pos now img]
    show "\<exists>q c' pos'. predict sm rnd pos now c img = Inr (q, c', pos')"
      by blast
  qed
next
  show "predict sm rnd pos now c img = Inr (p, c', pos') \<longrightarrow>
          class_name p \<in> set class_table \<and> class_name p \<noteq> ''Unknown''
          \<and> (\<exists>i < nat (num_classes c). class_name p = class_table ! i)"
  proof
    assume r: "predict sm rnd pos now c img = Inr (p, c', pos')"
    from predict_InrD [OF r]
    obtain t x ls i where "preprocess img default_target_size = Inr t"
      and "model_forward sm rnd pos (model c) t = Inr (x, ls, pos')"
      and x: "shape x \<noteq> []"
      and am: "np_argmax (slice_upto (num_classes c) (data x)) = Inr i"
      and pdef: "p = \<lparr>class_name = (if i < length (classes c) then classes c ! i
                                      else ''Unknown''),
                       confidence = slice_upto (num_classes c) (data x) ! i,
                       timestamp = now\<rparr>"
      and "c' = c\<lparr>model := ls\<rparr>"
      by (elim exE conjE)
    have p: "class_name p = (if i < length (classes c) then classes c ! i else ''Unknown'')"
      by (simp add: pdef)
    let ?v = "slice_upto (num_classes c) (data x)"
    have "?v \<noteq> []"
      using am by (auto simp add: np_argmax_def)
    from np_argmax_props [OF this] am have "i < length ?v"
      by auto
    moreover have "length ?v \<le> nat (num_classes c)"
      using assms(2) by (simp add: slice_upto_def)
    ultimately have i: "i < nat (num_classes c)"
      by simp
    then have i10: "i < length class_table"
      using assms(3) by (simp add: class_table_def)
    then have eq: "class_name p = class_table ! i"
      using p assms(1) by simp
    then have mem: "class_name p \<in> set class_table"
      using i10 by simp
    then have "class_name p \<noteq> ''Unknown''"
      using unknown_not_a_class by auto
    then show "class_name p \<in> set class_table \<and> class_name p \<noteq> ''Unknown''
           \<and> (\<exists>i < nat (num_classes c). class_name p = class_table ! i)"
      using mem eq i by blast
  qed
qed

theorem predict_never_unknown_witness:
  "\<exists>c c' pos'. AIImageClassifier_init 10 = Inr c \<and> classes c = class_table
      \<and> 1 \<le> num_classes c \<and> num_classes c \<le> 10 \<and> built (num_classes c) c
      \<and> predict fsum no_noise 0 ''t0'' c sample_image
           = Inr (\<lparr>class_name = ''Airplane'', confidence = Fin (1 / 10), timestamp = ''t0''\<rparr>,
                  c', pos')
      \<and> ''Airplane'' \<in> set class_table \<and> ''Airplane'' \<noteq> ''Unknown''"
proof -
  from built_init [of 10] obtain c where c: "AIImageClassifier_init 10 = Inr c" "built 10 c"
    by auto
  have n1: "(1::int) \<le> 10"
    by simp
  have s: "scores fsum 10 sample_image = replicate (nat 10) (Fin (1 / 10))"
    using scores_sample [OF fsum_ok n1] by simp
  from predict_uniform [OF c(2) n1 s, of no_noise 0 "''t0''"]
  obtain c' pos' where pr: "predict fsum no_noise 0 ''t0'' c sample_image
           = Inr (\<lparr>class_name = ''Airplane'', confidence = Fin (1 / 10), timestamp = ''t0''\<rparr>,
                  c', pos')"
    by auto
  have cl: "classes c = class_table" and n: "1 \<le> num_classes c" "num_classes c \<le> 10"
    and b: "built (num_classes c) c"
    using c(2) by (simp_all add: built_def)
  from predict_never_unknown [OF cl n, of fsum no_noise 0 "''t0''" sample_image
      "\<lparr>class_name = ''Airplane'', confidence = Fin (1 / 10), timestamp = ''t0''\<rparr>" c' pos'] pr
  have "''Airplane'' \<in> set class_table \<and> ''Airplane'' \<noteq> ''Unknown''"
    by simp
  then show ?thesis
    using c(1) cl n b pr by blast
qed

lemma argsort_stable_ok: "is_argsort v (argsort_stable v)"
  by (simp add: is_argsort_def argsort_stable_def sorted_sort_key)

lemma argsort_stable_const: "argsort_stable (replicate m k) = [0..<m]"
proof -
  have "map (\<lambda>i. replicate m k ! i) [0..<m] = replicate m k"
    by (rule nth_equalityI) simp_all
  then have "sorted (map (\<lambda>i. replicate m k ! i) [0..<m])"
    by (simp add: sorted_replicate)
  then show ?thesis
    by (simp add: argsort_stable_def sort_key_id_if_sorted)
qed

lemma get_top_predictions_built:
  assumes b: "built n c" and n: "1 \<le> n"
    and v: "v = scores sm n img"
  shows "\<exists>c' pos'. get_top_predictions sm srt rnd pos clk c img top_k
            = Inr (map (\<lambda>(j, idx). \<lparr>class_name = class_table ! idx,
                                       confidence = v ! idx,
                                       timestamp = clk j\<rparr>)
                       (enumerate 0 (filter (\<lambda>idx. idx < 10)
                                            (rev (slice_from (- top_k) (srt v))))),
                   c', pos')
           \<and> built n c'"
proof -
  from class_scores_built [OF b n, of img sm rnd pos]
  obtain x ls pos' t where t: "preprocess img default_target_size = Inr t"
    and mf: "model_forward sm rnd pos (model c) t = Inr (x, ls, pos')"
    and x: "shape x \<noteq> []"
    and sc: "slice_upto (num_classes c) (data x) = scores sm n img"
    and b': "built n (c\<lparr>model := ls\<rparr>)"
    by blast
  have sc': "slice_upto (num_classes c) (data x) = v"
    using sc by (simp only: v)
  have cl: "classes c = class_table" "length class_table = 10"
    using b by (simp_all add: built_def class_table_def)
  have "get_top_predictions sm srt rnd pos clk c img top_k
            = Inr (map (\<lambda>(j, idx). \<lparr>class_name = class_table ! idx,
                                       confidence = v ! idx,
                                       timestamp = clk j\<rparr>)
                       (enumerate 0 (filter (\<lambda>idx. idx < 10)
                                            (rev (slice_from (- top_k) (srt v))))),
                   c\<lparr>model := ls\<rparr>, pos')"
    by (simp add: get_top_predictions_def t mf x sc' cl Let_def)
  then show ?thesis
    using b' by blast
qed


lemma idx_top0: "filter (\<lambda>idx. idx < 10) (rev (slice_from (- 0) [0..<10]))
                   = [9, 8, 7, 6, 5, 4, 3, 2, 1, 0::nat]"
  by code_simp

lemma idx_top3_of_11: "filter (\<lambda>idx. idx < 10) (rev (slice_from (- 3) [0..<11]))
                   = [9, 8::nat]"
  by (simp add: slice_from_def upt_rec_numeral)

lemma is_argsort_length:
  assumes "is_argsort v p"
  shows "length p = length v \<and> (\<forall>i \<in> set p. i < length v)"
proof -
  from assms have m: "mset p = mset [0..<length v]"
    by (simp add: is_argsort_def)
  then have "length p = length [0..<length v]"
    by (rule mset_eq_length)
  moreover from m have "set p = set [0..<length v]"
    by (rule mset_eq_setD)
  ultimately show ?thesis
    by simp
qed

lemma top3_kept_length:
  assumes "is_argsort v p" and "3 \<le> length v" and "length v \<le> 10"
  shows "length (filter (\<lambda>idx. idx < 10) (rev (slice_from (- 3) p))) = 3"
proof -
  note lp = is_argsort_length [OF assms(1)]
  have sl: "slice_from (- 3) p = drop (length p - 3) p"
    by (simp add: slice_from_def)
  have "i < 10" if "i \<in> set (drop (length p - 3) p)" for i
  proof -
    from that have "i \<in> set p"
      by (rule in_set_dropD)
    then have "i < length v"
      using lp by simp
    then show ?thesis
      using assms(3) by simp
  qed
  then have "\<forall>i \<in> set (rev (slice_from (- 3) p)). i < 10"
    by (simp add: sl)
  then have "filter (\<lambda>idx. idx < 10) (rev (slice_from (- 3) p)) = rev (slice_from (- 3) p)"
    by (simp add: filter_id_conv)
  then show ?thesis
    using lp assms(2) by (simp add: sl)
qed

lemma analyze_image_of_results:
  assumes "get_top_predictions sm srt rnd pos clk c img 3 = Inr (rs, c', pos')"
    and "rs \<noteq> []"
  shows "analyze_image sm srt rnd pos clk c img
           = Inr (\<lparr>primary_prediction = (class_name (hd rs), confidence (hd rs)),
                   all_predictions = map (\<lambda>p. (class_name p, confidence p)) rs,
                   model_info = (num_classes c', ''CNN'', length (model c')),
                   report_timestamp = clk (length rs)\<rparr>, c', pos')"
  using assms by (cases rs) (simp_all add: analyze_image_def)


lemma get_top_predictions_InrD:
  assumes "get_top_predictions sm srt rnd pos clk c img top_k = Inr (rs, c', pos')"
  shows "\<exists>t x ls. preprocess img default_target_size = Inr t
           \<and> model_forward sm rnd pos (model c) t = Inr (x, ls, pos')
           \<and> shape x \<noteq> []
           \<and> rs = map (\<lambda>(j, idx).
                          \<lparr>class_name = classes c ! idx,
                           confidence = slice_upto (num_classes c) (data x) ! idx,
                           timestamp = clk j\<rparr>)
                       (enumerate 0
                          (filter (\<lambda>idx. idx < length (classes c))
                             (rev (slice_from (- top_k)
                                     (srt (slice_upto (num_classes c) (data x)))))))
           \<and> c' = c\<lparr>model := ls\<rparr>"
proof -
  obtain t where t: "preprocess img default_target_size = Inr t"
    using assms
    by (cases "preprocess img default_target_size") (simp_all add: get_top_predictions_def)
  obtain x ls q where mf: "model_forward sm rnd pos (model c) t = Inr (x, ls, q)"
    using assms t
    by (cases "model_forward sm rnd pos (model c) t") (auto simp add: get_top_predictions_def)
  have x: "shape x \<noteq> []"
  proof
    assume "shape x = []"
    then show False
      using assms t mf by (simp add: get_top_predictions_def)
  qed
  show ?thesis
    using assms t mf x by (simp add: get_top_predictions_def Let_def)
qed

lemma top_k_descending:
  assumes "is_argsort v p" and "1 \<le> k"
  shows "length (filter P (rev (slice_from (- k) p))) \<le> nat k
         \<and> sorted (rev (map (\<lambda>i. v ! i) (filter P (rev (slice_from (- k) p)))))"
proof -
  have sl: "slice_from (- k) p = drop (length p - nat k) p"
    using assms(2) by (simp add: slice_from_def)
  have "length (filter P (rev (slice_from (- k) p))) \<le> length (rev (slice_from (- k) p))"
    by (rule length_filter_le)
  also have "\<dots> \<le> nat k"
    by (simp add: sl)
  finally have len: "length (filter P (rev (slice_from (- k) p))) \<le> nat k" .
  from assms(1) have "sorted (map (\<lambda>i. v ! i) p)"
    by (simp add: is_argsort_def)
  then have "sorted_wrt (\<lambda>i j. v ! i \<le> v ! j) p"
    by (simp add: sorted_map)
  then have "sorted_wrt (\<lambda>i j. v ! i \<le> v ! j) (drop (length p - nat k) p)"
    by (rule sorted_wrt_drop)
  then have "sorted_wrt (\<lambda>i j. v ! i \<le> v ! j) (filter P (drop (length p - nat k) p))"
    by (rule sorted_wrt_filter)
  then have "sorted (map (\<lambda>i. v ! i) (filter P (drop (length p - nat k) p)))"
    by (simp add: sorted_map)
  moreover have "rev (map (\<lambda>i. v ! i) (filter P (rev (slice_from (- k) p))))
                   = map (\<lambda>i. v ! i) (filter P (drop (length p - nat k) p))"
    by (simp add: sl rev_map rev_filter)
  ultimately show ?thesis
    using len by simp
qed

lemma get_top_predictions_positive_k:
  assumes "get_top_predictions sm srt rnd pos clk c img top_k = Inr (rs, c', pos')"
    and "1 \<le> top_k" and "\<forall>v. is_argsort v (srt v)"
  shows "length rs \<le> nat top_k \<and> sorted (rev (map confidence rs))"
proof -
  from get_top_predictions_InrD [OF assms(1)]
  obtain t x ls where "preprocess img default_target_size = Inr t"
    and "model_forward sm rnd pos (model c) t = Inr (x, ls, pos')"
    and "shape x \<noteq> []"
    and rs: "rs = map (\<lambda>(j, idx).
                          \<lparr>class_name = classes c ! idx,
                           confidence = slice_upto (num_classes c) (data x) ! idx,
                           timestamp = clk j\<rparr>)
                       (enumerate 0
                          (filter (\<lambda>idx. idx < length (classes c))
                             (rev (slice_from (- top_k)
                                     (srt (slice_upto (num_classes c) (data x)))))))"
    and "c' = c\<lparr>model := ls\<rparr>"
    by (elim exE conjE)
  define v where "v = slice_upto (num_classes c) (data x)"
  define kept where "kept = filter (\<lambda>idx. idx < length (classes c))
                              (rev (slice_from (- top_k) (srt v)))"
  have rs': "rs = map (\<lambda>(j, idx). \<lparr>class_name = classes c ! idx, confidence = v ! idx,
                                     timestamp = clk j\<rparr>) (enumerate 0 kept)"
    using rs by (simp only: v_def kept_def)
  have "map confidence rs = map (\<lambda>x. v ! snd x) (enumerate 0 kept)"
    by (simp add: rs' comp_def case_prod_beta)
  also have "\<dots> = map (\<lambda>i. v ! i) (map snd (enumerate 0 kept))"
    by (simp only: map_map comp_def)
  also have "\<dots> = map (\<lambda>i. v ! i) kept"
    by simp
  finally have conf: "map confidence rs = map (\<lambda>i. v ! i) kept" .
  have len: "length rs = length kept"
    by (simp add: rs')
  have "is_argsort v (srt v)"
    using assms(3) by simp
  from top_k_descending [OF this assms(2), of "\<lambda>idx. idx < length (classes c)"]
  show ?thesis
    by (simp add: conf len kept_def)
qed

lemma get_top_predictions_count:
  assumes "built n c" and "1 \<le> n" and "n \<le> 10" and "1 \<le> top_k"
    and "\<forall>v. is_argsort v (srt v)"
  shows "\<exists>rs c' pos'. get_top_predictions sm srt rnd pos clk c img top_k = Inr (rs, c', pos')
           \<and> length rs = min (nat top_k) (nat n)
           \<and> sorted (rev (map confidence rs))"
proof -
  define v where "v = scores sm n img"
  define p where "p = srt v"
  from get_top_predictions_built [OF assms(1,2) v_def, of srt rnd pos clk top_k]
  obtain rs c' pos' where g: "get_top_predictions sm srt rnd pos clk c img top_k
        = Inr (rs, c', pos')"
    and rs: "rs = map (\<lambda>(j, idx). \<lparr>class_name = class_table ! idx, confidence = v ! idx,
                                     timestamp = clk j\<rparr>)
                       (enumerate 0 (filter (\<lambda>idx. idx < 10)
                                            (rev (slice_from (- top_k) p))))"
    unfolding p_def by blast
  have ar: "is_argsort v p"
    using assms(5) by (simp add: p_def)
  note lp = is_argsort_length [OF ar]
  have lv: "length v = nat n"
    by (simp add: v_def length_scores)
  have sl: "slice_from (- top_k) p = drop (length p - nat top_k) p"
    using assms(4) by (simp add: slice_from_def)
  have "i < 10" if "i \<in> set (drop (length p - nat top_k) p)" for i
  proof -
    from that have "i \<in> set p"
      by (rule in_set_dropD)
    then have "i < nat n"
      using lp lv by simp
    then show ?thesis
      using assms(3) by simp
  qed
  then have "filter (\<lambda>idx. idx < 10) (rev (slice_from (- top_k) p))
               = rev (slice_from (- top_k) p)"
    by (simp add: sl filter_id_conv)
  then have "length rs = length (drop (length p - nat top_k) p)"
    by (simp add: rs sl)
  then have "length rs = min (nat top_k) (nat n)"
    using lp lv by (auto simp add: min_def)
  then show ?thesis
    using g get_top_predictions_positive_k [OF g assms(4,5)] by blast
qed

lemma get_top_predictions_zero_k:
  assumes "built n c" and "1 \<le> n" and "n \<le> 10" and "\<forall>v. is_argsort v (srt v)"
  shows "\<exists>rs c' pos'. get_top_predictions sm srt rnd pos clk c img 0 = Inr (rs, c', pos')
           \<and> length rs = nat n"
proof -
  define v where "v = scores sm n img"
  define p where "p = srt v"
  from get_top_predictions_built [OF assms(1,2) v_def, of srt rnd pos clk 0]
  obtain rs c' pos' where g: "get_top_predictions sm srt rnd pos clk c img 0
        = Inr (rs, c', pos')"
    and rs: "rs = map (\<lambda>(j, idx). \<lparr>class_name = class_table ! idx, confidence = v ! idx,
                                     timestamp = clk j\<rparr>)
                       (enumerate 0 (filter (\<lambda>idx. idx < 10) (rev (slice_from (- 0) p))))"
    unfolding p_def by blast
  have "is_argsort v p"
    using assms(4) by (simp add: p_def)
  note lp = is_argsort_length [OF this]
  have lv: "length v = nat n"
    by (simp add: v_def length_scores)
  have "\<forall>i \<in> set p. i < 10"
    using lp lv assms(3) by auto
  then have "filter (\<lambda>idx. idx < 10) (rev (slice_from (- 0) p)) = rev p"
    by (simp add: slice_from_def filter_id_conv)
  then have "length rs = nat n"
    using lp lv by (simp add: rs)
  then show ?thesis
    using g by blast
qed

text \<open>
  Claim C1. For \<open>top_k \<ge> 1\<close> and any admissible sort the code does what the claim
  says: at most \<open>top_k\<close> results, confidences never increasing
  (\<open>get_top_predictions_positive_k\<close>), and exactly \<open>min top_k num_classes\<close> of them on
  a built classifier with at most ten classes (\<open>get_top_predictions_count\<close>). At
  \<open>top_k = 0\<close> it does not: the slice \<^verbatim>\<open>[-top_k:]\<close> is then \<^verbatim>\<open>[0:]\<close>, the whole
  array, and \<^verbatim>\<open>get_top_predictions\<close> returns one prediction for each class
  (\<open>get_top_predictions_zero_k\<close>) instead of none. On the classifier with ten classes,
  with the stable sort and the sums from left to right, these are the ten classes
  from last to first.
\<close>

theorem get_top_predictions_top_k_zero:
  "map_sum id (map class_name \<circ> fst)
     (get_top_predictions fsum argsort_stable no_noise 0 fixed_clock
        (projr (AIImageClassifier_init 10)) sample_image 0)
   = Inr [''Truck'', ''Ship'', ''Horse'', ''Frog'', ''Dog'',
          ''Deer'', ''Cat'', ''Bird'', ''Automobile'', ''Airplane'']"
proof -
  from built_init [of 10] obtain c where c: "AIImageClassifier_init 10 = Inr c" "built 10 c"
    by auto
  define v where "v = scores fsum 10 sample_image"
  have n1: "(1::int) \<le> 10"
    by simp
  have veq: "v = replicate 10 (Fin (1 / 10))"
    using scores_sample [OF fsum_ok n1] by (simp add: v_def)
  have srt: "argsort_stable v = [0..<10]"
    by (simp add: veq argsort_stable_const)
  from get_top_predictions_built [OF c(2) n1 v_def,
      of argsort_stable no_noise 0 fixed_clock 0]
  obtain c' pos' where "get_top_predictions fsum argsort_stable no_noise 0 fixed_clock c
        sample_image 0
      = Inr (map (\<lambda>(j, idx). \<lparr>class_name = class_table ! idx, confidence = v ! idx,
                                 timestamp = fixed_clock j\<rparr>)
                 (enumerate 0 [9, 8, 7, 6, 5, 4, 3, 2, 1, 0]), c', pos')"
    by (auto simp only: srt idx_top0)
  then show ?thesis
    by (simp add: c(1) class_table_def enumerate_eq_zip upt_rec_numeral)
qed

text \<open>
  Claim C2, amended. On a classifier as built, with \<open>3 \<le> num_classes \<le> 10\<close>, any
  sort that returns a permutation of the indices and any sum, for every image
  (whatever its values), \<^verbatim>\<open>analyze_image\<close> returns a
  report whose \<open>all_predictions\<close> has length exactly 3 and whose \<open>primary_prediction\<close> is
  \<open>all_predictions[0]\<close>.
\<close>

theorem analyze_image_top3:
  assumes "built n c" and "3 \<le> n" and "n \<le> 10" and "\<forall>v. is_argsort v (srt v)"
  shows "\<exists>rep c' pos'. analyze_image sm srt rnd pos clk c img = Inr (rep, c', pos')
           \<and> length (all_predictions rep) = 3
           \<and> primary_prediction rep = all_predictions rep ! 0
           \<and> built n c'"
proof -
  define v where "v = scores sm n img"
  define kept where "kept = filter (\<lambda>idx. idx < 10) (rev (slice_from (- 3) (srt v)))"
  define rs where "rs = map (\<lambda>(j, idx). \<lparr>class_name = class_table ! idx,
                                            confidence = v ! idx, timestamp = clk j\<rparr>)
                            (enumerate 0 kept)"
  have n1: "1 \<le> n"
    using assms(2) by simp
  from get_top_predictions_built [OF assms(1) n1 v_def, of srt rnd pos clk 3]
  obtain c' pos' where g: "get_top_predictions sm srt rnd pos clk c img 3 = Inr (rs, c', pos')"
    and b': "built n c'"
    unfolding rs_def kept_def by blast
  have lv: "length v = nat n"
    by (simp add: v_def length_scores)
  have "is_argsort v (srt v)"
    using assms(4) by simp
  moreover have "3 \<le> length v" and "length v \<le> 10"
    using assms(2,3) by (simp_all add: lv nat_le_iff le_nat_iff)
  ultimately have "length kept = 3"
    unfolding kept_def by (rule top3_kept_length)
  then have len: "length rs = 3"
    by (simp add: rs_def)
  then obtain p0 rest where rs: "rs = p0 # rest"
    by (cases rs) simp_all
  have ne: "rs \<noteq> []"
    by (simp add: rs)
  have hd0: "map (\<lambda>p. (class_name p, confidence p)) rs ! 0
               = (class_name (hd rs), confidence (hd rs))"
    by (simp add: rs)
  show ?thesis
    using analyze_image_of_results [OF g ne] len hd0 b' by simp
qed

theorem analyze_image_top3_witness:
  "\<exists>c rep c' pos'. AIImageClassifier_init 10 = Inr c \<and> built 10 c
      \<and> (\<forall>v. is_argsort v (argsort_stable v))
      \<and> analyze_image fsum argsort_stable no_noise 0 fixed_clock c sample_image
           = Inr (rep, c', pos')
      \<and> length (all_predictions rep) = 3
      \<and> primary_prediction rep = all_predictions rep ! 0"
proof -
  from built_init [of 10] obtain c where c: "AIImageClassifier_init 10 = Inr c" "built 10 c"
    by auto
  have s: "\<forall>v. is_argsort v (argsort_stable v)"
    by (simp add: argsort_stable_ok)
  from analyze_image_top3 [OF c(2) _ _ s, of fsum no_noise 0 fixed_clock sample_image]
  obtain rep c' pos' where "analyze_image fsum argsort_stable no_noise 0 fixed_clock c sample_image
           = Inr (rep, c', pos')"
      "length (all_predictions rep) = 3"
      "primary_prediction rep = all_predictions rep ! 0"
    by auto
  then show ?thesis
    using c s by blast
qed

text \<open>
  Claim C2 as stated fails above ten classes. With \<open>num_classes = 11\<close> all eleven
  scores are equal; the stable sort leaves the indices in order, the top three are
  10, 9 and 8, and index 10 is outside the class table and is skipped: the report has
  two predictions.
\<close>

theorem analyze_image_eleven_classes:
  "(3::int) \<le> 11
   \<and> map_sum id fst
        (analyze_image fsum argsort_stable no_noise 0 fixed_clock
           (projr (AIImageClassifier_init 11)) sample_image)
      = Inr \<lparr>primary_prediction = (''Truck'', Fin (1 / 11)),
             all_predictions = [(''Truck'', Fin (1 / 11)), (''Ship'', Fin (1 / 11))],
             model_info = (11, ''CNN'', 4),
             report_timestamp = ''2024-01-01T00:00:00''\<rparr>"
proof -
  from built_init [of 11] obtain c where c: "AIImageClassifier_init 11 = Inr c" "built 11 c"
    by auto
  define v where "v = scores fsum 11 sample_image"
  have n1: "(1::int) \<le> 11"
    by simp
  have veq: "v = replicate 11 (Fin (1 / 11))"
    using scores_sample [OF fsum_ok n1] by (simp add: v_def)
  have srt: "argsort_stable v = [0..<11]"
    by (simp add: veq argsort_stable_const)
  from get_top_predictions_built [OF c(2) n1 v_def,
      of argsort_stable no_noise 0 fixed_clock 3]
  obtain c' pos' where g: "get_top_predictions fsum argsort_stable no_noise 0 fixed_clock c
        sample_image 3
      = Inr (map (\<lambda>(j, idx). \<lparr>class_name = class_table ! idx, confidence = v ! idx,
                                 timestamp = fixed_clock j\<rparr>)
                 (enumerate 0 [9, 8]), c', pos')"
    and b': "built 11 c'"
    by (auto simp only: srt idx_top3_of_11)
  have m: "num_classes c' = 11" "length (model c') = 4"
    using b' by (auto simp add: built_def elim: standard_model_layers)
  have "analyze_image fsum argsort_stable no_noise 0 fixed_clock c sample_image
      = Inr (\<lparr>primary_prediction = (''Truck'', Fin (1 / 11)),
              all_predictions = [(''Truck'', Fin (1 / 11)), (''Ship'', Fin (1 / 11))],
              model_info = (11, ''CNN'', 4),
              report_timestamp = ''2024-01-01T00:00:00''\<rparr>, c', pos')"
    by (simp add: analyze_image_def g m class_table_def enumerate_eq_zip veq
        fixed_clock_def upt_rec_numeral)
  then show ?thesis
    by (simp add: c(1))
qed


lemma forward_fresh_nonpositive:
  assumes "weights l = None" and "filters l \<le> 0" and "activation l = ''softmax''"
    and "shape x \<noteq> []"
  shows "forward sm rnd pos l x = Inl ValueError"
proof (cases "filters l < 0")
  case True
  then show ?thesis
    using assms by (simp add: forward_def materialize_def)
next
  case False
  then have "filters l = 0"
    using assms(2) by simp
  then show ?thesis
    using assms
    by (simp add: forward_def materialize_def linear_transform_def activate_def Let_def)
qed

lemma predict_fresh_nonpositive:
  assumes "n \<le> 0" and "AIImageClassifier_init n = Inr c"
  shows "predict sm rnd pos now c img = Inl ValueError"
proof -
  define l1 where "l1 = \<lparr>filters = 32, kernel_size = 3, activation = ''relu'',
                          weights = None, bias = None\<rparr>"
  define l2 where "l2 = \<lparr>filters = 64, kernel_size = 3, activation = ''relu'',
                          weights = None, bias = None\<rparr>"
  define l3 where "l3 = \<lparr>filters = 128, kernel_size = 3, activation = ''relu'',
                          weights = None, bias = None\<rparr>"
  define l4 where "l4 = \<lparr>filters = n, kernel_size = 1, activation = ''softmax'',
                          weights = None, bias = None\<rparr>"
  have m: "model c = [l1, l2, l3, l4]"
    using assms(2)
    by (auto simp add: AIImageClassifier_init_def build_model_def CNNLayer_init_def
        l1_def l2_def l3_def l4_def)
  from preprocess_ok [of 224 224 img]
  obtain t ch where t: "preprocess img default_target_size = Inr t"
    and sh: "shape t = [224, 224, ch]"
    by (auto simp add: default_target_size_def)
  have z: "zero_bias l1" "zero_bias l2" "zero_bias l3"
    by (simp_all add: zero_bias_def l1_def l2_def l3_def)
  have a: "activation l1 \<noteq> ''softmax''" "activation l2 \<noteq> ''softmax''"
      "activation l3 \<noteq> ''softmax''"
    by (simp_all add: l1_def l2_def l3_def)
  from forward_zero_bias [of l1 t sm rnd pos] z(1) a(1) sh
  obtain y1 k1 p1 where s1: "forward sm rnd pos l1 t = Inr (y1, k1, p1)" and y1: "shape y1 \<noteq> []"
    by auto
  from forward_zero_bias [of l2 y1 sm rnd p1] z(2) a(2) y1
  obtain y2 k2 p2 where s2: "forward sm rnd p1 l2 y1 = Inr (y2, k2, p2)" and y2: "shape y2 \<noteq> []"
    by auto
  from forward_zero_bias [of l3 y2 sm rnd p2] z(3) a(3) y2
  obtain y3 k3 p3 where s3: "forward sm rnd p2 l3 y2 = Inr (y3, k3, p3)" and y3: "shape y3 \<noteq> []"
    by auto
  have s4: "forward sm rnd p3 l4 y3 = Inl ValueError"
    using assms(1) y3 by (intro forward_fresh_nonpositive) (simp_all add: l4_def)
  have "model_forward sm rnd pos (model c) t = Inl ValueError"
    by (simp add: m s1 s2 s3 s4)
  then show ?thesis
    by (simp add: predict_def t)
qed

text \<open>
  Claim C3 as stated fails: the constructors accept \<open>filters \<le> 0\<close> and
  \<open>num_classes \<le> 0\<close> and return the object.
\<close>

theorem constructors_accept_nonpositive:
  "CNNLayer_init 0 3 ''relu''
     = Inr \<lparr>filters = 0, kernel_size = 3, activation = ''relu'',
             weights = None, bias = None\<rparr>
   \<and> CNNLayer_init (- 4) 3 ''relu''
     = Inr \<lparr>filters = - 4, kernel_size = 3, activation = ''relu'',
             weights = None, bias = None\<rparr>
   \<and> map_sum id num_classes (AIImageClassifier_init 0) = Inr 0
   \<and> map_sum id num_classes (AIImageClassifier_init (- 1)) = Inr (- 1)"
  by (simp add: CNNLayer_init_def AIImageClassifier_init_def build_model_def)

text \<open>
  Claim C3, amended. Construction checks nothing: the layer constructor returns a layer
  holding its arguments, whatever they are, and the classifier constructor returns a
  classifier with the given \<open>num_classes\<close>. For \<open>num_classes \<le> 0\<close> the error comes
  only with the forward pass: \<^verbatim>\<open>predict\<close> on the new classifier raises ValueError.
\<close>

theorem construction_unchecked:
  "CNNLayer_init f k a
     = Inr \<lparr>filters = f, kernel_size = k, activation = a, weights = None, bias = None\<rparr>
   \<and> (\<exists>c. AIImageClassifier_init n = Inr c \<and> num_classes c = n
          \<and> classes c = class_table \<and> map filters (model c) = [32, 64, 128, n]
          \<and> (n \<le> 0 \<longrightarrow> predict sm rnd pos now c img = Inl ValueError))"
proof -
  obtain c where c: "AIImageClassifier_init n = Inr c" "num_classes c = n"
      "classes c = class_table" "map filters (model c) = [32, 64, 128, n]"
    by (simp add: AIImageClassifier_init_def build_model_def CNNLayer_init_def)
  then show ?thesis
    using predict_fresh_nonpositive [OF _ c(1)] by (auto simp add: CNNLayer_init_def)
qed

theorem construction_unchecked_witness:
  "\<exists>c. AIImageClassifier_init 0 = Inr c \<and> num_classes c = 0
      \<and> predict fsum no_noise 0 ''t0'' c sample_image = Inl ValueError"
  using construction_unchecked [of 0 3 "''relu''" 0 fsum no_noise 0 "''t0''" sample_image]
  by auto

end
